theory Spec2Isabelle
  imports Main "HOL-Library.Word"
begin

unbundle bit_operations_syntax

section \<open>Values of the Python program\<close>

text \<open>
  The program under verification is \<^verbatim>\<open>0x02-redis_basic/exercise.py\<close>: two decorators
  (\<^verbatim>\<open>count_calls\<close>, \<^verbatim>\<open>call_history\<close>), the function \<^verbatim>\<open>replay\<close> and the class
  \<^verbatim>\<open>Cache\<close> with \<^verbatim>\<open>store\<close>, \<^verbatim>\<open>get\<close>, \<^verbatim>\<open>get_str\<close> and \<^verbatim>\<open>get_int\<close>.

  Byte sequences are \<open>string\<close>s (a \<open>char\<close> is one byte). A Python \<^verbatim>\<open>str\<close> is carried
  as the bytes of its UTF-8 encoding, a lone surrogate in it as the three bytes that the
  \<^verbatim>\<open>surrogatepass\<close> error handler gives (\<^verbatim>\<open>ED A0 80\<close> for U+D800). These three bytes
  are not valid UTF-8, so the strict \<^verbatim>\<open>s.encode("utf-8")\<close> succeeds, as the identity,
  exactly on the valid byte sequences and raises \<^verbatim>\<open>UnicodeEncodeError\<close> on the others,
  and \<^verbatim>\<open>b.decode("utf-8")\<close> is the same validity check on bytes. A Python \<^verbatim>\<open>float\<close> is
  carried as the text \<^verbatim>\<open>repr\<close> gives for it, which is all the program ever asks of a
  float. The keys of the store are carried as the bytes sent to the server.
\<close>

type_synonym bytes = string

datatype pyval =
    PStr string
  | PBytes bytes
  | PInt int
  | PFloat string
  | PBool bool
  | PNone

text \<open>
  The exceptions that occur. \<open>RedisError\<close> stands for \<^verbatim>\<open>redis.RedisError\<close> and all its
  subclasses and carries the message; \<open>Raised\<close> is any other exception of caller-supplied
  code.
\<close>

datatype exn =
    RedisError string
  | ValueError
  | UnicodeDecodeError
  | UnicodeEncodeError
  | TypeError
  | Raised string

fun is_redis_error :: "exn \<Rightarrow> bool" where
  "is_redis_error (RedisError m) = True"
| "is_redis_error e = False"

subsection \<open>Decimal text of integers\<close>

definition digit_char :: "nat \<Rightarrow> char" where
  "digit_char d = ''0123456789'' ! d"

fun digits :: "nat \<Rightarrow> string" where
  "digits n = (if n < 10 then [digit_char n] else digits (n div 10) @ [digit_char (n mod 10)])"

declare digits.simps [simp del]

text \<open>\<^verbatim>\<open>repr(i)\<close> for an \<^verbatim>\<open>int\<close>.\<close>

definition repr_int :: "int \<Rightarrow> string" where
  "repr_int i = (if i < 0 then CHR ''-'' # digits (nat (- i)) else digits (nat i))"

text \<open>
  The interpreter refuses to convert between \<^verbatim>\<open>int\<close> and decimal text beyond
  \<^verbatim>\<open>sys.int_max_str_digits\<close> digits, 4300 by default: \<^verbatim>\<open>repr\<close>, \<^verbatim>\<open>str\<close> and \<^verbatim>\<open>int\<close>
  raise \<^verbatim>\<open>ValueError\<close> there.
\<close>

definition max_str_digits :: nat where
  "max_str_digits = 4300"

definition py_repr_int :: "int \<Rightarrow> exn + string" where
  "py_repr_int i =
     (if max_str_digits < length (digits (nat \<bar>i\<bar>)) then Inl ValueError else Inr (repr_int i))"

definition is_digit :: "char \<Rightarrow> bool" where
  "is_digit c \<longleftrightarrow> (48::nat) \<le> of_char c \<and> of_char c \<le> (57::nat)"

definition digit_val :: "char \<Rightarrow> nat" where
  "digit_val c = of_char c - 48"

definition dec_val :: "string \<Rightarrow> nat" where
  "dec_val ds = foldl (\<lambda>a c. 10 * a + digit_val c) 0 ds"

subsection \<open>\<^verbatim>\<open>int(b)\<close> on a byte sequence\<close>

text \<open>
  Python's \<^verbatim>\<open>int\<close> on \<^verbatim>\<open>bytes\<close> reads a base-10 literal: optional white space around it,
  an optional sign, then digits, where single underscores may separate digits. Anything
  else raises \<^verbatim>\<open>ValueError\<close>, and so does a literal of more than
  \<^verbatim>\<open>sys.int_max_str_digits\<close> digits.
\<close>

definition is_space :: "char \<Rightarrow> bool" where
  "is_space c \<longleftrightarrow> (of_char c :: nat) \<in> {32, 9, 10, 11, 12, 13}"

definition strip :: "string \<Rightarrow> string" where
  "strip s = rev (dropWhile is_space (rev (dropWhile is_space s)))"

fun py_digits :: "bool \<Rightarrow> nat \<Rightarrow> string \<Rightarrow> nat option" where
  "py_digits after_digit acc [] = (if after_digit then Some acc else None)"
| "py_digits after_digit acc (c # cs) =
     (if is_digit c then py_digits True (10 * acc + digit_val c) cs
      else if c = CHR ''_'' \<and> after_digit then py_digits False acc cs
      else None)"

definition py_int :: "bytes \<Rightarrow> exn + int" where
  "py_int b =
     (let s = strip b;
          (neg, ds) = (case s of
                         c # r \<Rightarrow> if c = CHR ''-'' then (True, r)
                                  else if c = CHR ''+'' then (False, r)
                                  else (False, s)
                       | [] \<Rightarrow> (False, s))
      in case py_digits False 0 ds of
           None \<Rightarrow> Inl ValueError
         | Some n \<Rightarrow>
             if max_str_digits < length (filter is_digit ds) then Inl ValueError
             else Inr (if neg then - int n else int n))"

subsection \<open>\<^verbatim>\<open>b.decode("utf-8")\<close>\<close>

text \<open>
  The strict UTF-8 codec accepts exactly the well-formed byte sequences: no stray
  continuation byte, no overlong form, no surrogate, nothing above U+10FFFF.
\<close>

definition byte_in :: "nat \<Rightarrow> nat \<Rightarrow> char \<Rightarrow> bool" where
  "byte_in lo hi c \<longleftrightarrow> lo \<le> of_char c \<and> of_char c \<le> hi"

fun valid_utf8 :: "bytes \<Rightarrow> bool" where
  "valid_utf8 [] = True"
| "valid_utf8 (c # cs) =
     (let b = (of_char c :: nat) in
      if b < 128 then valid_utf8 cs
      else if 194 \<le> b \<and> b \<le> 223 then
        (case cs of
           c1 # r \<Rightarrow> byte_in 128 191 c1 \<and> valid_utf8 r
         | _ \<Rightarrow> False)
      else if 224 \<le> b \<and> b \<le> 239 then
        (case cs of
           c1 # c2 # r \<Rightarrow>
             byte_in (if b = 224 then 160 else 128) (if b = 237 then 159 else 191) c1
             \<and> byte_in 128 191 c2 \<and> valid_utf8 r
         | _ \<Rightarrow> False)
      else if 240 \<le> b \<and> b \<le> 244 then
        (case cs of
           c1 # c2 # c3 # r \<Rightarrow>
             byte_in (if b = 240 then 144 else 128) (if b = 244 then 143 else 191) c1
             \<and> byte_in 128 191 c2 \<and> byte_in 128 191 c3 \<and> valid_utf8 r
         | _ \<Rightarrow> False)
      else False)"

definition decode_utf8 :: "bytes \<Rightarrow> exn + string" where
  "decode_utf8 b = (if valid_utf8 b then Inr b else Inl UnicodeDecodeError)"

definition encode_utf8 :: "string \<Rightarrow> exn + bytes" where
  "encode_utf8 s = (if valid_utf8 s then Inr s else Inl UnicodeEncodeError)"

subsection \<open>\<^verbatim>\<open>repr\<close> and \<^verbatim>\<open>str\<close>\<close>

text \<open>
  \<^verbatim>\<open>repr\<close> of \<^verbatim>\<open>bytes\<close>, and of a \<^verbatim>\<open>str\<close> of ASCII characters, quotes the content
  with an apostrophe (with a double quote when the content has an apostrophe and no
  double quote) and escapes the quote, the backslash, tab, line feed, carriage return and
  every byte outside the printable ASCII range. Which characters beyond ASCII are
  printable is decided by the interpreter's Unicode tables, which are no part of the
  program: \<^verbatim>\<open>repr\<close> of such a \<^verbatim>\<open>str\<close> is the parameter \<open>u\<close> of what follows.
  \<^verbatim>\<open>repr\<close> of an \<^verbatim>\<open>int\<close> raises \<^verbatim>\<open>ValueError\<close> beyond the digit limit, and \<^verbatim>\<open>repr\<close>
  of a tuple raises what the first failing element raises.
\<close>

definition hex_char :: "nat \<Rightarrow> char" where
  "hex_char d = ''0123456789abcdef'' ! d"

definition squote :: char where
  "squote = CHR 0x27"

definition dquote :: char where
  "dquote = CHR 0x22"

definition backslash :: char where
  "backslash = CHR 0x5C"

definition newline :: char where
  "newline = CHR 0x0A"

definition escape_char :: "char \<Rightarrow> char \<Rightarrow> string" where
  "escape_char q c =
     (let b = (of_char c :: nat) in
      if c = q \<or> c = backslash then [backslash, c]
      else if b = 9 then [backslash, CHR ''t'']
      else if b = 10 then [backslash, CHR ''n'']
      else if b = 13 then [backslash, CHR ''r'']
      else if b < 32 \<or> 127 \<le> b then [backslash, CHR ''x'', hex_char (b div 16), hex_char (b mod 16)]
      else [c])"

definition repr_quoted :: "string \<Rightarrow> string" where
  "repr_quoted s =
     (let q = (if squote \<in> set s \<and> dquote \<notin> set s then dquote else squote)
      in q # concat (map (escape_char q) s) @ [q])"

definition is_ascii :: "string \<Rightarrow> bool" where
  "is_ascii s = list_all (\<lambda>c. (of_char c :: nat) < 128) s"

fun py_repr :: "(string \<Rightarrow> string) \<Rightarrow> pyval \<Rightarrow> exn + string" where
  "py_repr u (PStr s) = Inr (if is_ascii s then repr_quoted s else u s)"
| "py_repr u (PBytes b) = Inr (CHR ''b'' # repr_quoted b)"
| "py_repr u (PInt i) = py_repr_int i"
| "py_repr u (PFloat r) = Inr r"
| "py_repr u (PBool b) = Inr (if b then ''True'' else ''False'')"
| "py_repr u PNone = Inr ''None''"

fun py_str :: "(string \<Rightarrow> string) \<Rightarrow> pyval \<Rightarrow> exn + string" where
  "py_str u (PStr s) = Inr s"
| "py_str u v = py_repr u v"

fun reprs :: "(string \<Rightarrow> string) \<Rightarrow> pyval list \<Rightarrow> exn + string list" where
  "reprs u [] = Inr []"
| "reprs u (v # vs) =
     (case py_repr u v of
        Inl x \<Rightarrow> Inl x
      | Inr r \<Rightarrow> (case reprs u vs of Inl x \<Rightarrow> Inl x | Inr rs \<Rightarrow> Inr (r # rs)))"

fun join :: "string \<Rightarrow> string list \<Rightarrow> string" where
  "join sep [] = []"
| "join sep [x] = x"
| "join sep (x # y # ys) = x @ sep @ join sep (y # ys)"

text \<open>\<^verbatim>\<open>str(args)\<close> for the tuple of positional arguments.\<close>

definition str_tuple :: "(string \<Rightarrow> string) \<Rightarrow> pyval list \<Rightarrow> exn + string" where
  "str_tuple u args =
     (case reprs u args of
        Inl x \<Rightarrow> Inl x
      | Inr rs \<Rightarrow>
          Inr (''('' @ join '', '' rs @ (if length args = 1 then '','' else []) @ '')''))"

section \<open>The world: the Redis server, its failures, randomness and standard output\<close>

text \<open>
  A Redis key holds a byte string or a list of byte strings. \<open>faults\<close> schedules the
  transport failures: each command sent to the server takes the head of the list, and
  \<open>Some m\<close> there makes the command raise \<^verbatim>\<open>RedisError\<close> with message \<open>m\<close> and leave the
  database as it is; once the list is used up every command reaches the server.
  \<open>entropy\<close> is the stream \<^verbatim>\<open>os.urandom\<close> draws from, \<open>stdout\<close> what has been printed.
\<close>

datatype rval = RString bytes | RList "bytes list"

record world =
  db :: "bytes \<rightharpoonup> rval"
  faults :: "string option list"
  entropy :: "nat \<Rightarrow> nat"
  stdout :: string

definition py_print :: "string \<Rightarrow> world \<Rightarrow> world" where
  "py_print s w = w\<lparr>stdout := stdout w @ s @ [newline]\<rparr>"

definition transport :: "world \<Rightarrow> string option \<times> world" where
  "transport w = (case faults w of [] \<Rightarrow> (None, w) | f # fs \<Rightarrow> (f, w\<lparr>faults := fs\<rparr>))"

subsection \<open>The client library\<close>

text \<open>
  A Redis command that takes no value returns \<open>Inl m\<close> when it raises \<^verbatim>\<open>RedisError\<close> with
  message \<open>m\<close>, the only exception it can raise. Besides the transport failures the server
  refuses a command on a key that holds the wrong kind of value, and \<^verbatim>\<open>INCR\<close> on a value
  that is not the decimal text of a signed 64-bit integer or that would overflow.

  \<^verbatim>\<open>SET\<close> and \<^verbatim>\<open>RPUSH\<close> take a value, which the client encodes once it has a
  connection: \<^verbatim>\<open>bytes\<close> as they are, a \<^verbatim>\<open>str\<close> by the strict UTF-8 codec, an \<^verbatim>\<open>int\<close> or
  \<^verbatim>\<open>float\<close> as the bytes of its \<^verbatim>\<open>repr\<close>; it refuses \<^verbatim>\<open>bool\<close> and \<^verbatim>\<open>None\<close> with a
  \<^verbatim>\<open>DataError\<close>, which is a \<^verbatim>\<open>RedisError\<close>. What the codec and \<^verbatim>\<open>repr\<close> raise is no
  \<^verbatim>\<open>RedisError\<close>, so these two commands return any exception.
\<close>

definition wrongtype :: string where
  "wrongtype = ''WRONGTYPE Operation against a key holding the wrong kind of value''"

definition data_error :: "string \<Rightarrow> exn" where
  "data_error typename =
     RedisError (''Invalid input of type: '' @ [squote] @ typename @ [squote]
                 @ ''. Convert to a bytes, string, int or float first.'')"

fun redis_encode :: "pyval \<Rightarrow> exn + bytes" where
  "redis_encode (PBytes b) = Inr b"
| "redis_encode (PBool b) = Inl (data_error ''bool'')"
| "redis_encode (PInt i) = py_repr_int i"
| "redis_encode (PFloat r) = Inr r"
| "redis_encode (PStr s) = encode_utf8 s"
| "redis_encode PNone = Inl (data_error ''NoneType'')"

definition redis_get :: "bytes \<Rightarrow> world \<Rightarrow> (string + bytes option) \<times> world" where
  "redis_get k w =
     (case transport w of
        (Some m, w1) \<Rightarrow> (Inl m, w1)
      | (None, w1) \<Rightarrow>
          (case db w1 k of
             None \<Rightarrow> (Inr None, w1)
           | Some (RString b) \<Rightarrow> (Inr (Some b), w1)
           | Some (RList l) \<Rightarrow> (Inl wrongtype, w1)))"

definition redis_set :: "bytes \<Rightarrow> pyval \<Rightarrow> world \<Rightarrow> (exn + bool) \<times> world" where
  "redis_set k v w =
     (case transport w of
        (Some m, w1) \<Rightarrow> (Inl (RedisError m), w1)
      | (None, w1) \<Rightarrow>
          (case redis_encode v of
             Inl x \<Rightarrow> (Inl x, w1)
           | Inr b \<Rightarrow> (Inr True, w1\<lparr>db := (db w1)(k \<mapsto> RString b)\<rparr>)))"

definition string2ll :: "bytes \<Rightarrow> int option" where
  "string2ll s =
     (let (neg, ds) = (case s of
                         c # r \<Rightarrow> if c = CHR ''-'' then (True, r) else (False, s)
                       | [] \<Rightarrow> (False, s))
      in if ds \<noteq> [] \<and> list_all is_digit ds then
           (let v = (if neg then - int (dec_val ds) else int (dec_val ds))
            in if repr_int v = s \<and> - (2 ^ 63) \<le> v \<and> v < 2 ^ 63 then Some v else None)
         else None)"

definition redis_incr :: "bytes \<Rightarrow> world \<Rightarrow> (string + int) \<times> world" where
  "redis_incr k w =
     (case transport w of
        (Some m, w1) \<Rightarrow> (Inl m, w1)
      | (None, w1) \<Rightarrow>
          (case db w1 k of
             None \<Rightarrow> (Inr 1, w1\<lparr>db := (db w1)(k \<mapsto> RString (repr_int 1))\<rparr>)
           | Some (RList l) \<Rightarrow> (Inl wrongtype, w1)
           | Some (RString b) \<Rightarrow>
               (case string2ll b of
                  None \<Rightarrow> (Inl ''value is not an integer or out of range'', w1)
                | Some n \<Rightarrow>
                    if n = 2 ^ 63 - 1 then (Inl ''increment or decrement would overflow'', w1)
                    else (Inr (n + 1), w1\<lparr>db := (db w1)(k \<mapsto> RString (repr_int (n + 1)))\<rparr>))))"

definition redis_rpush :: "bytes \<Rightarrow> pyval \<Rightarrow> world \<Rightarrow> (exn + nat) \<times> world" where
  "redis_rpush k v w =
     (case transport w of
        (Some m, w1) \<Rightarrow> (Inl (RedisError m), w1)
      | (None, w1) \<Rightarrow>
          (case redis_encode v of
             Inl x \<Rightarrow> (Inl x, w1)
           | Inr b \<Rightarrow>
               (case db w1 k of
                  None \<Rightarrow> (Inr 1, w1\<lparr>db := (db w1)(k \<mapsto> RList [b])\<rparr>)
                | Some (RList l) \<Rightarrow> (Inr (length l + 1), w1\<lparr>db := (db w1)(k \<mapsto> RList (l @ [b]))\<rparr>)
                | Some (RString x) \<Rightarrow> (Inl (RedisError wrongtype), w1))))"

definition lrange :: "bytes list \<Rightarrow> int \<Rightarrow> int \<Rightarrow> bytes list" where
  "lrange l start stop =
     (let n = int (length l);
          s = (if start < 0 then max 0 (n + start) else start);
          e = (if stop < 0 then n + stop else min stop (n - 1))
      in if e < s \<or> n \<le> s then [] else take (nat (e - s + 1)) (drop (nat s) l))"

definition redis_lrange :: "bytes \<Rightarrow> int \<Rightarrow> int \<Rightarrow> world \<Rightarrow> (string + bytes list) \<times> world" where
  "redis_lrange k start stop w =
     (case transport w of
        (Some m, w1) \<Rightarrow> (Inl m, w1)
      | (None, w1) \<Rightarrow>
          (case db w1 k of
             None \<Rightarrow> (Inr [], w1)
           | Some (RList l) \<Rightarrow> (Inr (lrange l start stop), w1)
           | Some (RString x) \<Rightarrow> (Inl wrongtype, w1)))"

definition redis_flushdb :: "bool \<Rightarrow> world \<Rightarrow> (string + bool) \<times> world" where
  "redis_flushdb asynchronous w =
     (case transport w of
        (Some m, w1) \<Rightarrow> (Inl m, w1)
      | (None, w1) \<Rightarrow> (Inr True, w1\<lparr>db := Map.empty\<rparr>))"

subsection \<open>\<^verbatim>\<open>str(uuid.uuid4())\<close>\<close>

text \<open>
  \<^verbatim>\<open>uuid4\<close> reads 16 random bytes as an integer, sets the variant and version bits, and
  \<^verbatim>\<open>str\<close> prints the 32 hexadecimal digits in groups of 8, 4, 4, 4 and 12.
\<close>

definition uuid4 :: "world \<Rightarrow> int \<times> world" where
  "uuid4 w =
     (let r = int (entropy w 0 mod 2 ^ 128);
          i1 = r AND NOT (push_bit 48 0xc000);
          i2 = i1 OR push_bit 48 0x8000;
          i3 = i2 AND NOT (push_bit 64 0xf000);
          i4 = i3 OR push_bit 76 4
      in (i4, w\<lparr>entropy := \<lambda>n. entropy w (Suc n)\<rparr>))"

definition hex32 :: "int \<Rightarrow> string" where
  "hex32 x = map (\<lambda>i. hex_char (nat ((x div 16 ^ (31 - i)) mod 16))) [0..<32]"

definition str_uuid :: "int \<Rightarrow> string" where
  "str_uuid x =
     (let h = hex32 x
      in take 8 h @ ''-'' @ take 4 (drop 8 h) @ ''-'' @ take 4 (drop 12 h) @ ''-''
         @ take 4 (drop 16 h) @ ''-'' @ drop 20 h)"

section \<open>The program\<close>

text \<open>
  A method of \<^verbatim>\<open>Cache\<close> is its \<^verbatim>\<open>__qualname__\<close> and what a call does: from the positional
  arguments, the keyword arguments and the world to a result (or the exception raised)
  and the world after. The methods are those of an instance built by \<^verbatim>\<open>Cache()\<close>, whose
  \<^verbatim>\<open>_redis\<close> is the client of the world's server, so \<^verbatim>\<open>self\<close> is not written.
  \<^verbatim>\<open>functools.wraps\<close> gives the wrapper the \<^verbatim>\<open>__qualname__\<close> of the method it wraps.
\<close>

type_synonym kwargs = "(string \<times> pyval) list"

type_synonym pycall = "pyval list \<Rightarrow> kwargs \<Rightarrow> world \<Rightarrow> (exn + pyval) \<times> world"

record pymethod =
  qualname :: string
  invoke :: pycall

text \<open>
  \<^verbatim>\<open>try: command except redis.RedisError as e: print(f"prefix{e}")\<close>, the shape of every
  store access whose result is not used: the world after the command, with the report
  printed when the command raised.
\<close>

definition report :: "string \<Rightarrow> (string + 'a) \<times> world \<Rightarrow> world" where
  "report prefix rw = (case rw of (Inl e, w1) \<Rightarrow> py_print (prefix @ e) w1 | (Inr x, w1) \<Rightarrow> w1)"

text \<open>
  The same \<^verbatim>\<open>try\<close> around a command that takes a value: a \<^verbatim>\<open>RedisError\<close> is caught and
  reported, any other exception leaves the \<^verbatim>\<open>try\<close> (\<open>Some\<close> of it is returned).
\<close>

definition guard :: "string \<Rightarrow> (exn + 'a) \<times> world \<Rightarrow> exn option \<times> world" where
  "guard prefix rw =
     (case rw of
        (Inl (RedisError e), w1) \<Rightarrow> (None, py_print (prefix @ e) w1)
      | (Inl x, w1) \<Rightarrow> (Some x, w1)
      | (Inr r, w1) \<Rightarrow> (None, w1))"

subsection \<open>\<^verbatim>\<open>count_calls\<close>\<close>

definition count_calls :: "pymethod \<Rightarrow> pymethod" where
  "count_calls method =
     \<lparr>qualname = qualname method,
      invoke = (\<lambda>args kwargs w.
        (let w1 = report ''Redis error while incrementing call count: ''
                         (redis_incr (qualname method) w)
         in invoke method args kwargs w1))\<rparr>"

subsection \<open>\<^verbatim>\<open>call_history\<close>\<close>

definition call_history :: "(string \<Rightarrow> string) \<Rightarrow> pymethod \<Rightarrow> pymethod" where
  "call_history u method =
     \<lparr>qualname = qualname method,
      invoke = (\<lambda>args kwargs w.
        (let in_key = qualname method @ '':inputs'';
             out_key = qualname method @ '':outputs''
         in case str_tuple u args of
              Inl x \<Rightarrow> (Inl x, w)
            | Inr t \<Rightarrow>
                (case guard ''Redis error while pushing inputs: ''
                            (redis_rpush in_key (PStr t) w) of
                   (Some x, w1) \<Rightarrow> (Inl x, w1)
                 | (None, w1) \<Rightarrow>
                     (case invoke method args kwargs w1 of
                        (Inl x, w2) \<Rightarrow> (Inl x, w2)
                      | (Inr output, w2) \<Rightarrow>
                          (case py_str u output of
                             Inl x \<Rightarrow> (Inl x, w2)
                           | Inr s \<Rightarrow>
                               (case guard ''Redis error while pushing outputs: ''
                                           (redis_rpush out_key (PStr s) w2) of
                                  (Some x, w3) \<Rightarrow> (Inl x, w3)
                                | (None, w3) \<Rightarrow> (Inr output, w3)))))))\<rparr>"

subsection \<open>\<^verbatim>\<open>replay\<close>\<close>

text \<open>
  What \<^verbatim>\<open>replay\<close> looks at in its argument: whether it is truthy, whether it has
  \<^verbatim>\<open>__self__\<close> and, if so, what \<^verbatim>\<open>getattr(fn.__self__, "_redis", None)\<close> is (no such
  attribute, something that is no \<^verbatim>\<open>redis.Redis\<close>, or a client), and its
  \<^verbatim>\<open>__qualname__\<close>, which every callable that has \<^verbatim>\<open>__self__\<close> has.
\<close>

datatype redis_attr = NoAttr | NotRedis | RedisClient

record pyref =
  truthy :: bool
  self_redis :: "redis_attr option"
  ref_qualname :: string

text \<open>The text of one \<^verbatim>\<open>print\<close> of the loop: the f-string runs over two source lines.\<close>

definition call_text :: "string \<Rightarrow> string \<Rightarrow> string \<Rightarrow> string" where
  "call_text fxn_name fxn_input fxn_output =
     fxn_name @ [CHR ''('', CHR ''*''] @ fxn_input @ '')->'' @ [newline]
     @ replicate 18 (CHR '' '') @ fxn_output"

fun replay_loop :: "string \<Rightarrow> (bytes \<times> bytes) list \<Rightarrow> world \<Rightarrow> exn option \<times> world" where
  "replay_loop fxn_name [] w = (None, w)"
| "replay_loop fxn_name ((fxn_input, fxn_output) # ps) w =
     (case decode_utf8 fxn_input of
        Inl x \<Rightarrow> (Some x, w)
      | Inr si \<Rightarrow>
          (case decode_utf8 fxn_output of
             Inl x \<Rightarrow> (Some x, w)
           | Inr so \<Rightarrow> replay_loop fxn_name ps (py_print (call_text fxn_name si so) w)))"

text \<open>\<^verbatim>\<open>int(redis_store.get(fxn_name) or 0)\<close>: nothing stored and the empty string count as 0.\<close>

definition call_count :: "bytes option \<Rightarrow> exn + int" where
  "call_count r = (case r of None \<Rightarrow> Inr 0 | Some b \<Rightarrow> if b = [] then Inr 0 else py_int b)"

text \<open>\<open>replay\<close> returns the exception that leaves it, \<open>None\<close> when it returns normally.\<close>

definition replay :: "pyref \<Rightarrow> world \<Rightarrow> exn option \<times> world" where
  "replay fn w =
     (if \<not> truthy fn \<or> self_redis fn = None then
        (None, py_print ''Invalid method provided for replay.'' w)
      else if self_redis fn \<noteq> Some RedisClient then
        (None, py_print ''No Redis instance found.'' w)
      else
        (let fxn_name = ref_qualname fn;
             in_key = fxn_name @ '':inputs'';
             out_key = fxn_name @ '':outputs''
         in case redis_get fxn_name w of
              (Inl e, w1) \<Rightarrow> (None, py_print (''Redis error during replay: '' @ e) w1)
            | (Inr r, w1) \<Rightarrow>
                (case call_count r of
                   Inl x \<Rightarrow> (Some x, w1)
                 | Inr fxn_call_count \<Rightarrow>
                     (let w2 = py_print (fxn_name @ '' was called '' @ repr_int fxn_call_count
                                         @ '' times:'') w1
                      in case redis_lrange in_key 0 (- 1) w2 of
                           (Inl e, w3) \<Rightarrow> (None, py_print (''Redis error during replay: '' @ e) w3)
                         | (Inr fxn_inputs, w3) \<Rightarrow>
                             (case redis_lrange out_key 0 (- 1) w3 of
                                (Inl e, w4) \<Rightarrow>
                                  (None, py_print (''Redis error during replay: '' @ e) w4)
                              | (Inr fxn_outputs, w4) \<Rightarrow>
                                  replay_loop fxn_name (zip fxn_inputs fxn_outputs) w4)))))"

subsection \<open>\<^verbatim>\<open>Cache\<close>\<close>

text \<open>
  \<^verbatim>\<open>redis.Redis()\<close> opens no connection, so it is \<^verbatim>\<open>flushdb\<close> that can fail in the
  constructor. The constructor returns the exception that leaves it (\<open>None\<close> when it
  completes) with what \<^verbatim>\<open>_redis\<close> of the new object is.
\<close>

definition Cache_init :: "world \<Rightarrow> (exn option \<times> redis_attr) \<times> world" where
  "Cache_init w =
     ((None, RedisClient), report ''Redis connection error: '' (redis_flushdb True w))"

text \<open>
  The parameter \<^verbatim>\<open>data\<close> of \<^verbatim>\<open>store\<close> is bound from one positional argument or from
  the keyword \<^verbatim>\<open>data\<close>; any other call raises \<^verbatim>\<open>TypeError\<close>.
\<close>

fun bind_data :: "pyval list \<Rightarrow> kwargs \<Rightarrow> pyval option" where
  "bind_data [d] [] = Some d"
| "bind_data [] [(k, d)] = (if k = ''data'' then Some d else None)"
| "bind_data args kwargs = None"

definition store_body :: pymethod where
  "store_body =
     \<lparr>qualname = ''Cache.store'',
      invoke = (\<lambda>args kwargs w.
        (case bind_data args kwargs of
           None \<Rightarrow> (Inl TypeError, w)
         | Some data \<Rightarrow>
             (let (x, w1) = uuid4 w;
                  data_key = str_uuid x
              in case guard ''Redis error while storing data: ''
                            (redis_set data_key data w1) of
                   (Some e, w2) \<Rightarrow> (Inl e, w2)
                 | (None, w2) \<Rightarrow> (Inr (PStr data_key), w2))))\<rparr>"

text \<open>\<^verbatim>\<open>@call_history\<close> over \<^verbatim>\<open>@count_calls\<close> over the body.\<close>

definition Cache_store :: "(string \<Rightarrow> string) \<Rightarrow> pymethod" where
  "Cache_store u = call_history u (count_calls store_body)"

text \<open>
  The transform \<^verbatim>\<open>fn\<close> of \<^verbatim>\<open>get\<close> is a function of the bytes read that returns a value
  or raises; it runs inside the \<^verbatim>\<open>try\<close>, so a \<^verbatim>\<open>RedisError\<close> it raises is caught too.
\<close>

definition Cache_get ::
    "string \<Rightarrow> (bytes \<Rightarrow> exn + pyval) option \<Rightarrow> world \<Rightarrow> (exn + pyval) \<times> world" where
  "Cache_get key fn w =
     (case redis_get key w of
        (Inl e, w1) \<Rightarrow> (Inr PNone, py_print (''Redis error while getting data: '' @ e) w1)
      | (Inr None, w1) \<Rightarrow> (Inr PNone, w1)
      | (Inr (Some data), w1) \<Rightarrow>
          (case fn of
             None \<Rightarrow> (Inr (PBytes data), w1)
           | Some f \<Rightarrow>
               (case f data of
                  Inl (RedisError e) \<Rightarrow>
                    (Inr PNone, py_print (''Redis error while getting data: '' @ e) w1)
                | Inl x \<Rightarrow> (Inl x, w1)
                | Inr v \<Rightarrow> (Inr v, w1))))"



text \<open>
  A client that builds a cache and calls \<^verbatim>\<open>store(v)\<close> for each value of a list in turn,
  collecting what the calls return.
\<close>

fun store_each :: "(string \<Rightarrow> string) \<Rightarrow> pyval list \<Rightarrow> world \<Rightarrow> (exn + pyval) list \<times> world" where
  "store_each u [] w = ([], w)"
| "store_each u (v # vs) w =
     (case invoke (Cache_store u) [v] [] w of
        (r, w1) \<Rightarrow> (case store_each u vs w1 of (rs, w2) \<Rightarrow> (r # rs, w2)))"

text \<open>The bound method \<^verbatim>\<open>cache.store\<close> as \<^verbatim>\<open>replay\<close> sees it.\<close>

definition bound_store :: "redis_attr \<Rightarrow> pyref" where
  "bound_store self = \<lparr>truthy = True, self_redis = Some self, ref_qualname = ''Cache.store''\<rparr>"

text \<open>The number of lines of a printed text, and the output of the loop of \<^verbatim>\<open>replay\<close>.\<close>

definition line_count :: "string \<Rightarrow> nat" where
  "line_count out = length (filter (\<lambda>c. c = newline) out)"

definition decodable :: "bytes \<times> bytes \<Rightarrow> bool" where
  "decodable p = (valid_utf8 (fst p) \<and> valid_utf8 (snd p))"

definition call_lines :: "string \<Rightarrow> (bytes \<times> bytes) list \<Rightarrow> string" where
  "call_lines fxn_name ps = concat (map (\<lambda>p. call_text fxn_name (fst p) (snd p) @ [newline]) ps)"

text \<open>
  The values \<^verbatim>\<open>store\<close> handles without an exception of its own: \<^verbatim>\<open>str(args)\<close> gives
  a text, that text encodes, and encoding the value raises nothing but a \<^verbatim>\<open>RedisError\<close>.
\<close>

definition convertible :: "(string \<Rightarrow> string) \<Rightarrow> pyval \<Rightarrow> bool" where
  "convertible u v =
     ((case str_tuple u [v] of Inl x \<Rightarrow> False | Inr t \<Rightarrow> valid_utf8 t)
      \<and> (case redis_encode v of Inl x \<Rightarrow> is_redis_error x | Inr b \<Rightarrow> True))"

text \<open>
  A world to run the program in: an empty server that is never out of reach, and a
  random source that gives 0, 1, 2, ...
\<close>

definition idle_world :: world where
  "idle_world = \<lparr>db = Map.empty, faults = [], entropy = (\<lambda>n. n), stdout = []\<rparr>"

text \<open>The world after \<^verbatim>\<open>cache = Cache()\<close> and \<^verbatim>\<open>cache.store(5)\<close> there.\<close>

definition one_call_world :: world where
  "one_call_world = snd (invoke (Cache_store id) [PInt 5] [] (snd (Cache_init idle_world)))"


text \<open>
  A world whose history lists for \<^verbatim>\<open>Cache.store\<close> have two entries each, the second
  output not valid UTF-8.
\<close>

definition garbled_world :: world where
  "garbled_world =
     idle_world\<lparr>db := [''Cache.store'' \<mapsto> RString ''2'',
                      ''Cache.store:inputs'' \<mapsto> RList [''(1,)'', ''(2,)''],
                      ''Cache.store:outputs'' \<mapsto> RList [''a'', [CHR 0xFF]]]\<rparr>"

text \<open>
  An \<^verbatim>\<open>int\<close> of 4301 digits, the \<^verbatim>\<open>str\<close> that is the one lone surrogate U+D800, and a \<^verbatim>\<open>repr\<close> for the strings
  beyond ASCII that is right on it: the surrogate is escaped.
\<close>

definition huge :: int where
  "huge = 10 ^ 4300"

definition lone_surrogate :: string where
  "lone_surrogate = [CHR 0xED, CHR 0xA0, CHR 0x80]"

definition escaped_repr :: "string \<Rightarrow> string" where
  "escaped_repr s = [squote, backslash] @ ''ud800'' @ [squote]"

section \<open>Facts about the library model\<close>

lemma of_char_digit_char: "d < 10 \<Longrightarrow> of_char (digit_char d) = (48::nat) + d"
proof -
  assume "d < 10"
  then have "d \<in> set [0..<10]" by simp
  then show ?thesis
    unfolding digit_char_def by (auto simp: upt_rec)
qed

lemma is_digit_digit_char: "d < 10 \<Longrightarrow> is_digit (digit_char d)"
  by (simp add: is_digit_def of_char_digit_char)

lemma digit_val_digit_char: "d < 10 \<Longrightarrow> digit_val (digit_char d) = d"
  by (simp add: digit_val_def of_char_digit_char)

lemma digits_not_Nil: "digits n \<noteq> []"
  by (subst digits.simps) simp

lemma all_digits: "list_all is_digit (digits n)"
proof (induction n rule: digits.induct)
  case (1 n)
  show ?case
  proof (cases "n < 10")
    case True
    then show ?thesis by (subst digits.simps) (simp add: is_digit_digit_char)
  next
    case False
    with 1 show ?thesis by (subst digits.simps) (simp add: is_digit_digit_char)
  qed
qed

lemma dec_val_snoc: "dec_val (ds @ [c]) = 10 * dec_val ds + digit_val c"
  by (simp add: dec_val_def)

lemma dec_val_digits: "dec_val (digits n) = n"
proof (induction n rule: digits.induct)
  case (1 n)
  show ?case
  proof (cases "n < 10")
    case True
    then show ?thesis by (subst digits.simps) (simp add: dec_val_def digit_val_digit_char)
  next
    case False
    with 1 show ?thesis
      by (subst digits.simps) (simp add: dec_val_snoc digit_val_digit_char)
  qed
qed

lemma digits_no_minus: "digits n = c # r \<Longrightarrow> c \<noteq> CHR ''-''"
proof -
  assume "digits n = c # r"
  with all_digits [of n] have "is_digit c" by simp
  then show ?thesis by (auto simp: is_digit_def)
qed

lemma string2ll_repr_int: "int n < 2 ^ 63 \<Longrightarrow> string2ll (repr_int (int n)) = Some (int n)"
proof -
  assume r: "int n < 2 ^ 63"
  obtain c r where d: "digits n = c # r"
    using digits_not_Nil [of n] by (cases "digits n") auto
  have c: "c \<noteq> CHR ''-''" using d by (rule digits_no_minus)
  have a: "list_all is_digit (c # r)" using all_digits [of n] d by simp
  have v: "dec_val (c # r) = n" using dec_val_digits [of n] d by simp
  have "repr_int (int n) = c # r" by (simp add: repr_int_def d)
  then show ?thesis
    using c a v r by (simp add: string2ll_def repr_int_def d)
qed

lemma length_str_uuid: "length (str_uuid x) = 36"
  by (simp add: str_uuid_def hex32_def Let_def)

lemma str_uuid_not_instrumentation:
  "str_uuid x \<noteq> ''Cache.store''" "str_uuid x \<noteq> ''Cache.store:inputs''"
  "str_uuid x \<noteq> ''Cache.store:outputs''"
  using length_str_uuid [of x] by auto

lemma transport_quiet: "faults w = [] \<Longrightarrow> transport w = (None, w)"
  by (simp add: transport_def)

lemma lrange_all: "lrange l 0 (- 1) = l"
  by (simp add: lrange_def Let_def)

lemma digit_not_space: "is_digit c \<Longrightarrow> \<not> is_space c"
  by (auto simp: is_digit_def is_space_def)

lemma strip_digits: "list_all is_digit s \<Longrightarrow> strip s = s"
proof (cases "s = []")
  case True
  then show ?thesis by (simp add: strip_def)
next
  case False
  assume a: "list_all is_digit s"
  have "is_digit (hd s)"
    using a False by (simp add: list_all_iff)
  then have 1: "dropWhile is_space s = s"
    by (simp add: dropWhile_eq_self_iff digit_not_space)
  have "is_digit (last s)"
    using a False by (simp add: list_all_iff)
  then have "\<not> is_space (hd (rev s))"
    using False by (simp add: hd_rev digit_not_space)
  then have "dropWhile is_space (rev s) = rev s"
    by (simp add: dropWhile_eq_self_iff)
  with 1 show ?thesis by (simp add: strip_def)
qed

lemma py_digits_all:
  "list_all is_digit ds \<Longrightarrow>
   py_digits b acc ds =
     (if ds = [] \<and> \<not> b then None else Some (foldl (\<lambda>a c. 10 * a + digit_val c) acc ds))"
  by (induction ds arbitrary: b acc) simp_all

lemma digits_longer: "10 ^ k \<le> n \<Longrightarrow> k < length (digits n)"
proof (induction k arbitrary: n)
  case 0
  then show ?case using digits_not_Nil [of n] by (cases "digits n") auto
next
  case (Suc k)
  have p: "10 * 10 ^ k \<le> n" using Suc.prems by simp
  have o: "1 \<le> (10::nat) ^ k" by simp
  have "\<not> n < 10" using p o by linarith
  moreover have "10 ^ k \<le> n div 10" using p by linarith
  then have "k < length (digits (n div 10))" by (rule Suc.IH)
  ultimately show ?case
    by (subst digits.simps) simp
qed

lemma digits_shorter: "n < 10 ^ k \<Longrightarrow> 0 < k \<Longrightarrow> length (digits n) \<le> k"
proof (induction k arbitrary: n)
  case 0
  then show ?case by simp
next
  case (Suc k)
  show ?case
  proof (cases "n < 10")
    case True
    then show ?thesis by (subst digits.simps) simp
  next
    case False
    then have "0 < k" using Suc.prems by (cases k) auto
    moreover have "n div 10 < 10 ^ k" using Suc.prems by (simp add: less_mult_imp_div_less)
    ultimately have "length (digits (n div 10)) \<le> k" by (intro Suc.IH)
    with False show ?thesis by (subst digits.simps) simp
  qed
qed

lemma digits_int64: "int n < 2 ^ 63 \<Longrightarrow> length (digits n) \<le> max_str_digits"
proof -
  assume "int n < 2 ^ 63"
  then have "n < 2 ^ 63" by (simp add: of_nat_less_numeral_power_cancel_iff)
  then have "n < 10 ^ 19" by simp
  then have "length (digits n) \<le> 19" by (rule digits_shorter) simp
  then show ?thesis by (simp add: max_str_digits_def)
qed

lemma py_repr_int_small:
  "length (digits n) \<le> max_str_digits \<Longrightarrow> py_repr_int (int n) = Inr (repr_int (int n))"
  by (simp add: py_repr_int_def)

lemma py_repr_int_pow10: "max_str_digits \<le> k \<Longrightarrow> py_repr_int (10 ^ k) = Inl ValueError"
proof -
  assume l: "max_str_digits \<le> k"
  have n: "nat \<bar>10 ^ k :: int\<bar> = 10 ^ k"
    by (simp add: nat_power_eq)
  have d: "k < length (digits (10 ^ k))"
    by (rule digits_longer) (rule order_refl)
  have "max_str_digits < length (digits (nat \<bar>10 ^ k :: int\<bar>))"
    unfolding n using l d by linarith
  then show ?thesis
    by (simp only: py_repr_int_def if_True)
qed

lemma py_repr_int_huge: "py_repr_int huge = Inl ValueError"
  unfolding huge_def by (rule py_repr_int_pow10) (simp add: max_str_digits_def)

lemma filter_all: "list_all P xs \<Longrightarrow> filter P xs = xs"
  by (induction xs) simp_all

lemma py_int_repr_int:
  "length (digits n) \<le> max_str_digits \<Longrightarrow> py_int (repr_int (int n)) = Inr (int n)"
proof -
  assume l: "length (digits n) \<le> max_str_digits"
  obtain c r where d: "digits n = c # r"
    using digits_not_Nil [of n] by (cases "digits n") auto
  have a: "list_all is_digit (c # r)" using all_digits [of n] d by simp
  then have "is_digit c" by simp
  then have c: "c \<noteq> CHR ''-''" "c \<noteq> CHR ''+''" by (auto simp: is_digit_def)
  have s: "strip (c # r) = c # r" using a by (rule strip_digits)
  have f: "filter is_digit (c # r) = c # r" using a by (rule filter_all)
  have "py_digits False 0 (c # r) = Some (dec_val (c # r))"
    unfolding dec_val_def using a by (simp add: py_digits_all)
  then have "py_digits False 0 (c # r) = Some n"
    using dec_val_digits [of n] d by simp
  then show ?thesis
    using c s f l by (simp add: py_int_def repr_int_def d del: filter.simps)
qed

lemma call_count_repr_int:
  "int n < 2 ^ 63 \<Longrightarrow> call_count (Some (repr_int (int n))) = Inr (int n)"
proof -
  assume "int n < 2 ^ 63"
  then have "length (digits n) \<le> max_str_digits" by (rule digits_int64)
  moreover have "repr_int (int n) \<noteq> []" by (simp add: repr_int_def digits_not_Nil)
  ultimately show ?thesis by (simp add: call_count_def py_int_repr_int)
qed

lemma is_ascii_valid: "is_ascii s \<Longrightarrow> valid_utf8 s"
  by (induction s) (simp_all add: is_ascii_def)

lemma is_ascii_append: "is_ascii (a @ b) = (is_ascii a \<and> is_ascii b)"
  by (simp add: is_ascii_def)

lemma is_ascii_digits: "is_ascii (digits n)"
proof -
  have "(of_char c :: nat) < 128" if "is_digit c" for c
    using that by (simp add: is_digit_def)
  then show ?thesis
    using all_digits [of n] by (auto simp: is_ascii_def list_all_iff)
qed

lemma is_ascii_repr_int: "is_ascii (repr_int i)"
  using is_ascii_digits by (simp add: repr_int_def is_ascii_def)

lemma of_char_hex_char: "d < 16 \<Longrightarrow> (of_char (hex_char d) :: nat) < 128"
proof -
  assume "d < 16"
  then have "d \<in> set [0..<16]" by simp
  then show ?thesis
    unfolding hex_char_def by (auto simp: upt_rec)
qed

lemma is_ascii_hex32: "is_ascii (hex32 x)"
proof -
  have "nat ((x div 16 ^ (31 - i)) mod 16) < 16" for i
    by (simp add: nat_less_iff)
  then show ?thesis
    by (simp add: hex32_def is_ascii_def list_all_iff of_char_hex_char)
qed

lemma is_ascii_str_uuid: "is_ascii (str_uuid x)"
proof -
  have "is_ascii (take n (hex32 x))" "is_ascii (drop n (hex32 x))"
    "is_ascii (take n (drop m (hex32 x)))" for n m
    using is_ascii_hex32 [of x]
    by (auto simp: is_ascii_def list_all_iff dest: in_set_takeD in_set_dropD)
  then show ?thesis
    by (simp add: str_uuid_def Let_def is_ascii_append) (simp add: is_ascii_def)
qed

lemma encode_str_uuid: "redis_encode (PStr (str_uuid x)) = Inr (str_uuid x)"
  by (simp add: encode_utf8_def is_ascii_valid is_ascii_str_uuid)

section \<open>Facts about the commands\<close>

lemma guard_rpush_ok: "redis_encode v = Inr b \<Longrightarrow> fst (guard p (redis_rpush k v w)) = None"
  by (simp add: guard_def redis_rpush_def transport_def
      split: list.splits option.splits rval.splits)

lemma guard_set_ok:
  "(case redis_encode v of Inl x \<Rightarrow> is_redis_error x | Inr b \<Rightarrow> True) \<Longrightarrow>
   fst (guard p (redis_set k v w)) = None"
  by (auto simp: guard_def redis_set_def transport_def
      split: list.splits option.splits sum.splits exn.splits)






lemma rpush_quiet:
  assumes "faults w = []"
  shows "faults (snd (guard p (redis_rpush k v w))) = []"
    and "entropy (snd (guard p (redis_rpush k v w))) = entropy w"
    and "k' \<noteq> k \<Longrightarrow> db (snd (guard p (redis_rpush k v w))) k' = db w k'"
  using assms
  by (auto simp: guard_def redis_rpush_def transport_def py_print_def
      split: sum.splits option.splits rval.splits exn.splits)

lemma incr_quiet:
  assumes "faults w = []"
  shows "faults (report p (redis_incr k w)) = []"
    and "entropy (report p (redis_incr k w)) = entropy w"
    and "k' \<noteq> k \<Longrightarrow> db (report p (redis_incr k w)) k' = db w k'"
  using assms
  by (auto simp: report_def redis_incr_def transport_def py_print_def
      split: sum.splits option.splits rval.splits)

lemma set_quiet:
  assumes "faults w = []" and "redis_encode v = Inr b"
  shows "guard p (redis_set k v w) = (None, w\<lparr>db := (db w)(k \<mapsto> RString b)\<rparr>)"
  using assms by (simp add: guard_def redis_set_def transport_def)

lemma set_raises:
  assumes "faults w = []" and "redis_encode v = Inl x" and "\<not> is_redis_error x"
  shows "guard p (redis_set k v w) = (Some x, w)"
  using assms by (cases x) (simp_all add: guard_def redis_set_def transport_def)

lemma set_frame:
  assumes "faults w = []"
  shows "faults (snd (guard p (redis_set k v w))) = []"
    and "entropy (snd (guard p (redis_set k v w))) = entropy w"
    and "k' \<noteq> k \<Longrightarrow> db (snd (guard p (redis_set k v w))) k' = db w k'"
  using assms
  by (auto simp: guard_def redis_set_def transport_def py_print_def
      split: sum.splits exn.splits)

lemma uuid4_fst: "entropy w1 = entropy w \<Longrightarrow> fst (uuid4 w1) = fst (uuid4 w)"
  by (simp add: uuid4_def Let_def)

lemma uuid4_snd:
  "faults (snd (uuid4 w)) = faults w" "db (snd (uuid4 w)) = db w" "stdout (snd (uuid4 w)) = stdout w"
  by (simp_all add: uuid4_def Let_def)

lemma snd_uuid4: "snd (uuid4 w) = w\<lparr>entropy := \<lambda>j. entropy w (Suc j)\<rparr>"
  by (simp add: uuid4_def Let_def)

lemma rpush_appends:
  assumes "faults w = []" and "redis_encode v = Inr b"
    and "db w k = None \<and> l = [] \<or> db w k = Some (RList l)"
  shows "guard p (redis_rpush k v w) = (None, w\<lparr>db := (db w)(k \<mapsto> RList (l @ [b]))\<rparr>)"
  using assms by (auto simp: guard_def redis_rpush_def transport_def)

lemma incr_counts:
  assumes "faults w = []"
    and "db w k = None \<and> n = 0 \<or> db w k = Some (RString (repr_int (int n)))"
    and "int n + 1 < 2 ^ 63"
  shows "report p (redis_incr k w) = w\<lparr>db := (db w)(k \<mapsto> RString (repr_int (int n + 1)))\<rparr>"
proof -
  have "string2ll (repr_int (int n)) = Some (int n)"
    using assms(3) by (simp add: string2ll_repr_int)
  then show ?thesis
    using assms by (auto simp: report_def redis_incr_def transport_def)
qed

text \<open>
  The steps of \<^verbatim>\<open>store(v)\<close>, in order: push the inputs entry, increment the counter,
  draw the key, set the value, push the key as the outputs entry.
\<close>

lemma store_raises_in_str:
  "str_tuple u args = Inl x \<Longrightarrow> invoke (Cache_store u) args kwargs w = (Inl x, w)"
  by (simp add: Cache_store_def call_history_def)

lemma store_unfold:
  assumes t: "str_tuple u [v] = Inr t"
  shows "invoke (Cache_store u) [v] [] w =
     (let g = guard ''Redis error while pushing inputs: ''
                 (redis_rpush ''Cache.store:inputs'' (PStr t) w)
      in case fst g of
           Some x \<Rightarrow> (Inl x, snd g)
         | None \<Rightarrow>
             (let w2 = report ''Redis error while incrementing call count: ''
                         (redis_incr ''Cache.store'' (snd g));
                  k = str_uuid (fst (uuid4 w2));
                  s = guard ''Redis error while storing data: '' (redis_set k v (snd (uuid4 w2)))
              in case fst s of
                   Some x \<Rightarrow> (Inl x, snd s)
                 | None \<Rightarrow>
                     (Inr (PStr k),
                      snd (guard ''Redis error while pushing outputs: ''
                             (redis_rpush ''Cache.store:outputs'' (PStr k) (snd s))))))"
proof -
  obtain r1 w1 where g1: "guard ''Redis error while pushing inputs: ''
                 (redis_rpush ''Cache.store:inputs'' (PStr t) w) = (r1, w1)"
    by (cases "guard ''Redis error while pushing inputs: ''
                 (redis_rpush ''Cache.store:inputs'' (PStr t) w)")
  define w2 where "w2 = report ''Redis error while incrementing call count: ''
                 (redis_incr ''Cache.store'' w1)"
  define k where "k = str_uuid (fst (uuid4 w2))"
  obtain r3 w3 where g3: "guard ''Redis error while storing data: ''
                 (redis_set k v (snd (uuid4 w2))) = (r3, w3)"
    by (cases "guard ''Redis error while storing data: '' (redis_set k v (snd (uuid4 w2)))")
  obtain w4 where g4: "guard ''Redis error while pushing outputs: ''
                     (redis_rpush ''Cache.store:outputs'' (PStr k) w3) = (None, w4)"
    using guard_rpush_ok [OF encode_str_uuid [of "fst (uuid4 w2)"],
        of "''Redis error while pushing outputs: ''" "''Cache.store:outputs''" w3]
    by (cases "guard ''Redis error while pushing outputs: ''
                     (redis_rpush ''Cache.store:outputs'' (PStr k) w3)") (auto simp: k_def)
  show ?thesis
    using g3 g4
    by (cases r1; cases r3)
       (simp_all add: Cache_store_def call_history_def count_calls_def store_body_def Let_def
          case_prod_beta t g1 flip: w2_def k_def)
qed

lemma store_steps:
  assumes t: "str_tuple u [v] = Inr t" and e: "redis_encode (PStr t) = Inr t'"
  shows "invoke (Cache_store u) [v] [] w =
     (let w1 = snd (guard ''Redis error while pushing inputs: ''
                 (redis_rpush ''Cache.store:inputs'' (PStr t) w));
          w2 = report ''Redis error while incrementing call count: '' (redis_incr ''Cache.store'' w1);
          k = str_uuid (fst (uuid4 w2));
          s = guard ''Redis error while storing data: '' (redis_set k v (snd (uuid4 w2)))
      in case fst s of
           Some x \<Rightarrow> (Inl x, snd s)
         | None \<Rightarrow>
             (Inr (PStr k),
              snd (guard ''Redis error while pushing outputs: ''
                     (redis_rpush ''Cache.store:outputs'' (PStr k) (snd s)))))"
  using guard_rpush_ok [OF e, of "''Redis error while pushing inputs: ''"
        "''Cache.store:inputs''" w]
  by (simp add: store_unfold [OF t] Let_def)



section \<open>Facts about \<^verbatim>\<open>store\<close>\<close>

lemma convertibleD:
  assumes "convertible u v"
  obtains t where "str_tuple u [v] = Inr t" and "redis_encode (PStr t) = Inr t"
    and "case redis_encode v of Inl x \<Rightarrow> is_redis_error x | Inr b \<Rightarrow> True"
  using assms by (auto simp: convertible_def encode_utf8_def split: sum.splits)

lemma store_step:
  assumes q: "faults w = []"
    and c: "db w ''Cache.store'' = None \<and> n = 0
            \<or> db w ''Cache.store'' = Some (RString (repr_int (int n)))"
    and i: "db w ''Cache.store:inputs'' = None \<and> ins = []
            \<or> db w ''Cache.store:inputs'' = Some (RList ins)"
    and o: "db w ''Cache.store:outputs'' = None \<and> outs = []
            \<or> db w ''Cache.store:outputs'' = Some (RList outs)"
    and b: "int n + 1 < 2 ^ 63"
    and cv: "convertible u v"
    and st: "invoke (Cache_store u) [v] [] w = (r, w')"
  shows "\<exists>k t. r = Inr (PStr k) \<and> str_tuple u [v] = Inr t \<and> faults w' = []
           \<and> db w' ''Cache.store'' = Some (RString (repr_int (int (Suc n))))
           \<and> db w' ''Cache.store:inputs'' = Some (RList (ins @ [t]))
           \<and> db w' ''Cache.store:outputs'' = Some (RList (outs @ [k]))"
proof -
  from cv obtain t where t: "str_tuple u [v] = Inr t" and te: "redis_encode (PStr t) = Inr t"
    and ve: "case redis_encode v of Inl x \<Rightarrow> is_redis_error x | Inr b \<Rightarrow> True"
    by (rule convertibleD)
  define w1 where "w1 = snd (guard ''Redis error while pushing inputs: ''
                 (redis_rpush ''Cache.store:inputs'' (PStr t) w))"
  define w2 where "w2 = report ''Redis error while incrementing call count: ''
                 (redis_incr ''Cache.store'' w1)"
  define k where "k = str_uuid (fst (uuid4 w2))"
  define s where "s = guard ''Redis error while storing data: '' (redis_set k v (snd (uuid4 w2)))"
  have kn: "''Cache.store'' \<noteq> k" "''Cache.store:inputs'' \<noteq> k" "''Cache.store:outputs'' \<noteq> k"
    unfolding k_def using str_uuid_not_instrumentation [of "fst (uuid4 w2)"] by auto
  have w1: "w1 = w\<lparr>db := (db w)(''Cache.store:inputs'' \<mapsto> RList (ins @ [t]))\<rparr>"
    unfolding w1_def using rpush_appends [OF q te i] by simp
  have c1: "db w1 ''Cache.store'' = None \<and> n = 0
            \<or> db w1 ''Cache.store'' = Some (RString (repr_int (int n)))"
    using c by (simp add: w1)
  have "w2 = w1\<lparr>db := (db w1)(''Cache.store'' \<mapsto> RString (repr_int (int n + 1)))\<rparr>"
    unfolding w2_def using c1 b by (intro incr_counts) (simp_all add: w1 q)
  moreover have "int n + 1 = int (Suc n)" by simp
  ultimately have w2:
    "w2 = w1\<lparr>db := (db w1)(''Cache.store'' \<mapsto> RString (repr_int (int (Suc n))))\<rparr>"
    by (simp only:)
  have f2: "faults (snd (uuid4 w2)) = []" "db (snd (uuid4 w2)) = db w2"
    by (simp_all add: uuid4_snd w2 w1 q)
  have s0: "fst s = None"
    unfolding s_def using ve by (rule guard_set_ok)
  have f3: "faults (snd s) = []" "db (snd s) ''Cache.store'' = db w2 ''Cache.store''"
    "db (snd s) ''Cache.store:inputs'' = db w2 ''Cache.store:inputs''"
    "db (snd s) ''Cache.store:outputs'' = db w2 ''Cache.store:outputs''"
    unfolding s_def using f2 kn by (simp_all add: set_frame)
  have o3: "db (snd s) ''Cache.store:outputs'' = None \<and> outs = []
            \<or> db (snd s) ''Cache.store:outputs'' = Some (RList outs)"
    using o by (simp add: f3 w2 w1)
  have res: "r = Inr (PStr k)"
    and w': "w' = snd (guard ''Redis error while pushing outputs: ''
            (redis_rpush ''Cache.store:outputs'' (PStr k) (snd s)))"
    using st s0
    by (simp_all add: store_steps [OF t te] Let_def flip: w1_def w2_def k_def s_def)
  have "redis_encode (PStr k) = Inr k"
    unfolding k_def by (rule encode_str_uuid)
  from rpush_appends [OF f3(1) this o3]
  have "w' = (snd s)\<lparr>db := (db (snd s))(''Cache.store:outputs'' \<mapsto> RList (outs @ [k]))\<rparr>"
    unfolding w' by simp
  then have "faults w' = []"
    "db w' ''Cache.store'' = Some (RString (repr_int (int (Suc n))))"
    "db w' ''Cache.store:inputs'' = Some (RList (ins @ [t]))"
    "db w' ''Cache.store:outputs'' = Some (RList (outs @ [k]))"
    using f3 by (simp_all add: w2 w1)
  with res t show ?thesis by blast
qed

lemma store_each_inv:
  assumes "faults w = []"
    and "db w ''Cache.store'' = None \<and> n = 0
         \<or> db w ''Cache.store'' = Some (RString (repr_int (int n)))"
    and "db w ''Cache.store:inputs'' = None \<and> ins = []
         \<or> db w ''Cache.store:inputs'' = Some (RList ins)"
    and "db w ''Cache.store:outputs'' = None \<and> outs = []
         \<or> db w ''Cache.store:outputs'' = Some (RList outs)"
    and "int n + int (length vs) < 2 ^ 63"
    and "list_all (convertible u) vs"
    and "store_each u vs w = (rs, w')"
  shows "\<exists>ins' ks. map (\<lambda>v. str_tuple u [v]) vs = map Inr ins'
           \<and> length ks = length vs \<and> rs = map (\<lambda>k. Inr (PStr k)) ks \<and> faults w' = []
           \<and> (db w' ''Cache.store'' = None \<and> n + length vs = 0
               \<or> db w' ''Cache.store'' = Some (RString (repr_int (int (n + length vs)))))
           \<and> (db w' ''Cache.store:inputs'' = None \<and> ins @ ins' = []
               \<or> db w' ''Cache.store:inputs'' = Some (RList (ins @ ins')))
           \<and> (db w' ''Cache.store:outputs'' = None \<and> outs @ ks = []
               \<or> db w' ''Cache.store:outputs'' = Some (RList (outs @ ks)))"
  using assms
proof (induction vs arbitrary: w n ins outs rs)
  case Nil
  then show ?case by simp
next
  case (Cons v vs)
  obtain r w1 where st: "invoke (Cache_store u) [v] [] w = (r, w1)"
    by (cases "invoke (Cache_store u) [v] [] w")
  obtain rs1 where rest: "store_each u vs w1 = (rs1, w')" and rs: "rs = r # rs1"
    using Cons.prems(7) st by (auto split: prod.splits)
  have b: "int n + 1 < 2 ^ 63"
    using Cons.prems(5) by simp
  have cv: "convertible u v" "list_all (convertible u) vs"
    using Cons.prems(6) by simp_all
  obtain k t where k: "r = Inr (PStr k)" "str_tuple u [v] = Inr t" "faults w1 = []"
      "db w1 ''Cache.store'' = Some (RString (repr_int (int (Suc n))))"
      "db w1 ''Cache.store:inputs'' = Some (RList (ins @ [t]))"
      "db w1 ''Cache.store:outputs'' = Some (RList (outs @ [k]))"
    using store_step [OF Cons.prems(1-4) b cv(1) st] by blast
  have b1: "int (Suc n) + int (length vs) < 2 ^ 63"
    using Cons.prems(5) by simp
  obtain ins' ks where ih: "map (\<lambda>v. str_tuple u [v]) vs = map Inr ins'"
      "length ks = length vs" "rs1 = map (\<lambda>k. Inr (PStr k)) ks"
      "faults w' = []"
      "db w' ''Cache.store'' = Some (RString (repr_int (int (Suc n + length vs))))"
      "db w' ''Cache.store:inputs'' = Some (RList ((ins @ [t]) @ ins'))"
      "db w' ''Cache.store:outputs'' = Some (RList ((outs @ [k]) @ ks))"
    using Cons.IH [of w1 "Suc n" "ins @ [t]" "outs @ [k]" rs1] k b1 cv(2) rest
    by auto
  show ?case
    apply (rule exI [of _ "t # ins'"])
    apply (rule exI [of _ "k # ks"])
    using ih rs k(1,2) by simp
qed

lemma store_exact:
  assumes q: "faults w = []"
    and c: "db w ''Cache.store'' = None \<and> n = 0
            \<or> db w ''Cache.store'' = Some (RString (repr_int (int n)))"
    and i: "db w ''Cache.store:inputs'' = None \<and> ins = []
            \<or> db w ''Cache.store:inputs'' = Some (RList ins)"
    and o: "db w ''Cache.store:outputs'' = None \<and> outs = []
            \<or> db w ''Cache.store:outputs'' = Some (RList outs)"
    and b: "int n + 1 < 2 ^ 63"
    and t: "str_tuple u [v] = Inr t" and te: "redis_encode (PStr t) = Inr t"
    and enc: "redis_encode v = Inr bv"
    and k: "k = str_uuid (fst (uuid4 w))"
  shows "invoke (Cache_store u) [v] [] w =
     (Inr (PStr k),
      w\<lparr>db := (db w)(''Cache.store:inputs'' \<mapsto> RList (ins @ [t]),
                      ''Cache.store'' \<mapsto> RString (repr_int (int n + 1)),
                      k \<mapsto> RString bv,
                      ''Cache.store:outputs'' \<mapsto> RList (outs @ [k])),
         entropy := \<lambda>j. entropy w (Suc j)\<rparr>)"
proof -
  define w1 where "w1 = snd (guard ''Redis error while pushing inputs: ''
                 (redis_rpush ''Cache.store:inputs'' (PStr t) w))"
  define w2 where "w2 = report ''Redis error while incrementing call count: ''
                 (redis_incr ''Cache.store'' w1)"
  define s where "s = guard ''Redis error while storing data: '' (redis_set k v (snd (uuid4 w2)))"
  have kn: "''Cache.store'' \<noteq> k" "''Cache.store:inputs'' \<noteq> k" "''Cache.store:outputs'' \<noteq> k"
    unfolding k using str_uuid_not_instrumentation [of "fst (uuid4 w)"] by auto
  have w1: "w1 = w\<lparr>db := (db w)(''Cache.store:inputs'' \<mapsto> RList (ins @ [t]))\<rparr>"
    unfolding w1_def using rpush_appends [OF q te i] by simp
  have c1: "db w1 ''Cache.store'' = None \<and> n = 0
            \<or> db w1 ''Cache.store'' = Some (RString (repr_int (int n)))"
    using c by (simp add: w1)
  have w2: "w2 = w1\<lparr>db := (db w1)(''Cache.store'' \<mapsto> RString (repr_int (int n + 1)))\<rparr>"
    unfolding w2_def using c1 b by (intro incr_counts) (simp_all add: w1 q)
  have k2: "str_uuid (fst (uuid4 w2)) = k"
    unfolding k by (simp add: uuid4_def Let_def w2 w1)
  have s: "s = (None, (snd (uuid4 w2))\<lparr>db := (db (snd (uuid4 w2)))(k \<mapsto> RString bv)\<rparr>)"
    unfolding s_def using enc by (intro set_quiet) (simp_all add: snd_uuid4 w2 w1 q)
  have o3: "db (snd s) ''Cache.store:outputs'' = None \<and> outs = []
            \<or> db (snd s) ''Cache.store:outputs'' = Some (RList outs)"
    using o kn by (simp add: s snd_uuid4 w2 w1)
  have q3: "faults (snd s) = []"
    by (simp add: s snd_uuid4 w2 w1 q)
  have "redis_encode (PStr k) = Inr k"
    unfolding k by (rule encode_str_uuid)
  from rpush_appends [OF q3 this o3]
  have "snd (guard ''Redis error while pushing outputs: ''
            (redis_rpush ''Cache.store:outputs'' (PStr k) (snd s)))
        = (snd s)\<lparr>db := (db (snd s))(''Cache.store:outputs'' \<mapsto> RList (outs @ [k]))\<rparr>"
    by simp
  then have "invoke (Cache_store u) [v] [] w =
      (Inr (PStr k), (snd s)\<lparr>db := (db (snd s))(''Cache.store:outputs'' \<mapsto> RList (outs @ [k]))\<rparr>)"
    using s by (simp add: store_steps [OF t te] Let_def k2 flip: w1_def w2_def s_def)
  then show ?thesis
    by (simp add: s snd_uuid4 w2 w1)
qed

lemma store_raises_in_set:
  assumes q: "faults w = []"
    and c: "db w ''Cache.store'' = None \<and> n = 0
            \<or> db w ''Cache.store'' = Some (RString (repr_int (int n)))"
    and i: "db w ''Cache.store:inputs'' = None \<and> ins = []
            \<or> db w ''Cache.store:inputs'' = Some (RList ins)"
    and b: "int n + 1 < 2 ^ 63"
    and t: "str_tuple u [v] = Inr t" and te: "redis_encode (PStr t) = Inr t"
    and enc: "redis_encode v = Inl x" and nr: "\<not> is_redis_error x"
  shows "invoke (Cache_store u) [v] [] w =
     (Inl x,
      w\<lparr>db := (db w)(''Cache.store:inputs'' \<mapsto> RList (ins @ [t]),
                      ''Cache.store'' \<mapsto> RString (repr_int (int n + 1))),
         entropy := \<lambda>j. entropy w (Suc j)\<rparr>)"
proof -
  define w1 where "w1 = snd (guard ''Redis error while pushing inputs: ''
                 (redis_rpush ''Cache.store:inputs'' (PStr t) w))"
  define w2 where "w2 = report ''Redis error while incrementing call count: ''
                 (redis_incr ''Cache.store'' w1)"
  define s where "s = guard ''Redis error while storing data: ''
                 (redis_set (str_uuid (fst (uuid4 w2))) v (snd (uuid4 w2)))"
  have w1: "w1 = w\<lparr>db := (db w)(''Cache.store:inputs'' \<mapsto> RList (ins @ [t]))\<rparr>"
    unfolding w1_def using rpush_appends [OF q te i] by simp
  have c1: "db w1 ''Cache.store'' = None \<and> n = 0
            \<or> db w1 ''Cache.store'' = Some (RString (repr_int (int n)))"
    using c by (simp add: w1)
  have w2: "w2 = w1\<lparr>db := (db w1)(''Cache.store'' \<mapsto> RString (repr_int (int n + 1)))\<rparr>"
    unfolding w2_def using c1 b by (intro incr_counts) (simp_all add: w1 q)
  have s: "s = (Some x, snd (uuid4 w2))"
    unfolding s_def using enc nr by (intro set_raises) (simp_all add: snd_uuid4 w2 w1 q)
  have "invoke (Cache_store u) [v] [] w = (Inl x, snd (uuid4 w2))"
    using s by (simp add: store_steps [OF t te] Let_def flip: w1_def w2_def s_def)
  then show ?thesis
    by (simp add: snd_uuid4 w2 w1)
qed

section \<open>Facts about \<^verbatim>\<open>replay\<close>\<close>

lemma get_quiet: "faults w = [] \<Longrightarrow> redis_get k w = (fst (redis_get k w), w)"
  by (simp add: redis_get_def transport_def split: option.splits rval.splits)

lemma lrange_quiet: "faults w = [] \<Longrightarrow> redis_lrange k s e w = (fst (redis_lrange k s e w), w)"
  by (simp add: redis_lrange_def transport_def split: option.splits rval.splits)

lemma lrange_print:
  "fst (redis_lrange k s e (py_print t w)) = fst (redis_lrange k s e w)"
  by (simp add: redis_lrange_def transport_def py_print_def
      split: option.splits rval.splits list.splits)

lemma print_fields:
  "faults (py_print t w) = faults w" "db (py_print t w) = db w" "entropy (py_print t w) = entropy w"
  "stdout (py_print t w) = stdout w @ t @ [newline]"
  by (simp_all add: py_print_def)

lemma replay_loop_prints:
  "replay_loop name ps w =
     (if list_all decodable ps then None else Some UnicodeDecodeError,
      w\<lparr>stdout := stdout w @ call_lines name (takeWhile decodable ps)\<rparr>)"
proof (induction ps arbitrary: w)
  case Nil
  then show ?case by (simp add: call_lines_def)
next
  case (Cons p ps)
  obtain fi fo where p: "p = (fi, fo)" by (cases p)
  show ?case
    by (simp add: p Cons decodable_def decode_utf8_def call_lines_def py_print_def)
qed

lemma replay_bound:
  assumes "truthy fn" and "self_redis fn = Some RedisClient" and "faults w = []"
    and "fst (redis_get (ref_qualname fn) w) = Inr r" and "call_count r = Inr n"
    and "fst (redis_lrange (ref_qualname fn @ '':inputs'') 0 (- 1) w) = Inr ins"
    and "fst (redis_lrange (ref_qualname fn @ '':outputs'') 0 (- 1) w) = Inr outs"
  shows "replay fn w =
     (if list_all decodable (zip ins outs) then None else Some UnicodeDecodeError,
      w\<lparr>stdout := stdout w @ ref_qualname fn @ '' was called '' @ repr_int n @ '' times:''
            @ [newline] @ call_lines (ref_qualname fn) (takeWhile decodable (zip ins outs))\<rparr>)"
proof -
  define w2 where "w2 = py_print (ref_qualname fn @ '' was called '' @ repr_int n @ '' times:'') w"
  have g: "redis_get (ref_qualname fn) w = (Inr r, w)"
    using get_quiet [OF assms(3), of "ref_qualname fn"] assms(4) by simp
  have q2: "faults w2 = []"
    using assms(3) by (simp add: w2_def print_fields)
  have i: "redis_lrange (ref_qualname fn @ '':inputs'') 0 (- 1) w2 = (Inr ins, w2)"
    using lrange_quiet [OF q2, of "ref_qualname fn @ '':inputs''" 0 "- 1"] assms(6)
    by (simp add: w2_def lrange_print)
  have o: "redis_lrange (ref_qualname fn @ '':outputs'') 0 (- 1) w2 = (Inr outs, w2)"
    using lrange_quiet [OF q2, of "ref_qualname fn @ '':outputs''" 0 "- 1"] assms(7)
    by (simp add: w2_def lrange_print)
  have "replay fn w = replay_loop (ref_qualname fn) (zip ins outs) w2"
    using assms(1,2,5) g i o by (simp add: replay_def Let_def w2_def)
  then show ?thesis
    by (simp add: replay_loop_prints w2_def py_print_def)
qed

lemma decodable_zip:
  "list_all valid_utf8 ins \<Longrightarrow> list_all valid_utf8 outs \<Longrightarrow> list_all decodable (zip ins outs)"
  by (auto simp: list_all_iff decodable_def dest: set_zip_leftD set_zip_rightD)

section \<open>Concrete runs\<close>

lemma init_idle: "Cache_init idle_world = ((None, RedisClient), idle_world)"
  by (simp add: Cache_init_def redis_flushdb_def transport_def report_def idle_world_def)

lemma init_quiet:
  "faults w = [] \<Longrightarrow> snd (Cache_init w) = w\<lparr>db := Map.empty\<rparr>"
  by (simp add: Cache_init_def redis_flushdb_def transport_def report_def)

lemma uuid_idle: "str_uuid (fst (uuid4 idle_world)) = ''00000000-0000-4000-8000-000000000000''"
  by (simp add: uuid4_def idle_world_def str_uuid_def hex32_def hex_char_def Let_def upt_rec)

lemma repr_int_0: "repr_int 0 = ''0''"
  by (simp add: repr_int_def digits.simps digit_char_def)

lemma repr_int_1: "repr_int 1 = ''1''"
  by (simp add: repr_int_def digits.simps digit_char_def)

lemma repr_int_5: "repr_int 5 = ''5''"
  by (simp add: repr_int_def digits.simps digit_char_def)

lemma py_repr_int_5: "py_repr_int 5 = Inr ''5''"
  by (simp add: py_repr_int_def repr_int_5 max_str_digits_def digits.simps)

lemma str_tuple_5: "str_tuple u [PInt 5] = Inr ''(5,)''"
  by (simp add: str_tuple_def py_repr_int_5)

lemma str_tuple_hello:
  "str_tuple u [PStr ''hello''] = Inr ([CHR ''('', squote] @ ''hello'' @ [squote] @ '',)'')"
  by (simp add: str_tuple_def is_ascii_def repr_quoted_def escape_char_def squote_def
      dquote_def backslash_def Let_def)

lemma str_tuple_empty: "str_tuple u [] = Inr ''()''"
  by (simp add: str_tuple_def)

lemma encode_ascii: "is_ascii t \<Longrightarrow> encode_utf8 t = Inr t"
  by (simp add: encode_utf8_def is_ascii_valid)

lemma one_call_world_eq:
  "one_call_world =
     idle_world\<lparr>db := [''Cache.store:inputs'' \<mapsto> RList [''(5,)''],
                      ''Cache.store'' \<mapsto> RString ''1'',
                      ''00000000-0000-4000-8000-000000000000'' \<mapsto> RString ''5'',
                      ''Cache.store:outputs'' \<mapsto> RList [''00000000-0000-4000-8000-000000000000'']],
                entropy := \<lambda>j. Suc j\<rparr>"
  "invoke (Cache_store id) [PInt 5] [] (snd (Cache_init idle_world))
     = (Inr (PStr ''00000000-0000-4000-8000-000000000000''), one_call_world)"
proof -
  have "invoke (Cache_store id) [PInt 5] [] idle_world =
     (Inr (PStr ''00000000-0000-4000-8000-000000000000''),
      idle_world\<lparr>db := (db idle_world)(''Cache.store:inputs'' \<mapsto> RList ([] @ [''(5,)'']),
                      ''Cache.store'' \<mapsto> RString (repr_int (int 0 + 1)),
                      ''00000000-0000-4000-8000-000000000000'' \<mapsto> RString ''5'',
                      ''Cache.store:outputs'' \<mapsto> RList ([] @ [''00000000-0000-4000-8000-000000000000''])),
         entropy := \<lambda>j. entropy idle_world (Suc j)\<rparr>)"
    by (rule store_exact [where t = "''(5,)''"])
       (simp_all add: idle_world_def py_repr_int_5 str_tuple_5 encode_ascii is_ascii_def
          uuid_idle [unfolded idle_world_def])
  then show "one_call_world =
     idle_world\<lparr>db := [''Cache.store:inputs'' \<mapsto> RList [''(5,)''],
                      ''Cache.store'' \<mapsto> RString ''1'',
                      ''00000000-0000-4000-8000-000000000000'' \<mapsto> RString ''5'',
                      ''Cache.store:outputs'' \<mapsto> RList [''00000000-0000-4000-8000-000000000000'']],
                entropy := \<lambda>j. Suc j\<rparr>"
    "invoke (Cache_store id) [PInt 5] [] (snd (Cache_init idle_world))
     = (Inr (PStr ''00000000-0000-4000-8000-000000000000''), one_call_world)"
    by (simp_all add: one_call_world_def init_idle repr_int_1) (simp_all add: idle_world_def)
qed




lemma store_huge:
  "invoke (Cache_store u) [PInt huge] [] w = (Inl ValueError, w)"
  by (rule store_raises_in_str) (simp add: str_tuple_def py_repr_int_huge)

lemma surrogate_text:
  "str_tuple escaped_repr [PStr lone_surrogate]
     = Inr ([CHR ''('', squote, backslash] @ ''ud800'' @ [squote] @ '',)'')"
  "encode_utf8 lone_surrogate = Inl UnicodeEncodeError"
  by (simp_all add: str_tuple_def is_ascii_def lone_surrogate_def escaped_repr_def
      encode_utf8_def byte_in_def)

lemma store_surrogate:
  "invoke (Cache_store escaped_repr) [PStr lone_surrogate] [] idle_world =
     (Inl UnicodeEncodeError,
      idle_world\<lparr>db := [''Cache.store:inputs'' \<mapsto>
                         RList [[CHR ''('', squote, backslash] @ ''ud800'' @ [squote] @ '',)''],
                      ''Cache.store'' \<mapsto> RString ''1''],
                 entropy := \<lambda>j. Suc j\<rparr>)"
proof -
  have "invoke (Cache_store escaped_repr) [PStr lone_surrogate] [] idle_world =
     (Inl UnicodeEncodeError,
      idle_world\<lparr>db := (db idle_world)(''Cache.store:inputs'' \<mapsto>
                         RList ([] @ [[CHR ''('', squote, backslash] @ ''ud800'' @ [squote] @ '',)'']),
                      ''Cache.store'' \<mapsto> RString (repr_int (int 0 + 1))),
         entropy := \<lambda>j. entropy idle_world (Suc j)\<rparr>)"
    by (rule store_raises_in_set
          [where t = "[CHR ''('', squote, backslash] @ ''ud800'' @ [squote] @ '',)''"])
       (simp_all add: idle_world_def surrogate_text encode_ascii is_ascii_def squote_def
          backslash_def)
  then show ?thesis
    by (simp add: repr_int_1) (simp add: idle_world_def)
qed

section \<open>The claims\<close>

subsection \<open>Storing and reading back\<close>

lemma int_converts:
  assumes "length (digits (nat \<bar>i\<bar>)) \<le> max_str_digits"
  shows "str_tuple u [PInt i] = Inr (''('' @ repr_int i @ '',)'')"
    and "encode_utf8 (''('' @ repr_int i @ '',)'') = Inr (''('' @ repr_int i @ '',)'')"
    and "redis_encode (PInt i) = Inr (repr_int i)"
proof -
  show "str_tuple u [PInt i] = Inr (''('' @ repr_int i @ '',)'')"
    "redis_encode (PInt i) = Inr (repr_int i)"
    using assms by (simp_all add: str_tuple_def py_repr_int_def)
  have "is_ascii (''('' @ repr_int i @ '',)'')"
    using is_ascii_repr_int [of i] by (simp add: is_ascii_def)
  then show "encode_utf8 (''('' @ repr_int i @ '',)'') = Inr (''('' @ repr_int i @ '',)'')"
    by (rule encode_ascii)
qed

text \<open>
  Claim C1, as the code has it. When no command fails in transport and the conversions
  of the value succeed (\<^verbatim>\<open>str(args)\<close> gives a text \<open>t\<close> for the history entry, \<open>t\<close>
  encodes, and the client encodes the value as the bytes \<open>b\<close>), \<^verbatim>\<open>store(v)\<close> returns a
  key, and \<^verbatim>\<open>get\<close> of that key with no transform returns the bytes \<open>b\<close> the server holds
  for the value; the state of the server before the call does not matter. An \<^verbatim>\<open>int\<close>
  within the interpreter's digit limit is such a value.
\<close>

theorem store_then_get:
  assumes q: "faults w = []"
    and tx: "str_tuple u [v] = Inr t" and te: "encode_utf8 t = Inr bt"
    and enc: "redis_encode v = Inr b"
    and st: "invoke (Cache_store u) [v] [] w = (r, w')"
  shows "r = Inr (PStr (str_uuid (fst (uuid4 w)))) \<and>
         Cache_get (str_uuid (fst (uuid4 w))) None w' = (Inr (PBytes b), w')"
proof -
  have te': "redis_encode (PStr t) = Inr bt"
    using te by simp
  define w1 where "w1 = snd (guard ''Redis error while pushing inputs: ''
                 (redis_rpush ''Cache.store:inputs'' (PStr t) w))"
  define w2 where "w2 = report ''Redis error while incrementing call count: ''
                 (redis_incr ''Cache.store'' w1)"
  define k where "k = str_uuid (fst (uuid4 w2))"
  define s where "s = guard ''Redis error while storing data: '' (redis_set k v (snd (uuid4 w2)))"
  have f1: "faults w1 = []" "entropy w1 = entropy w"
    unfolding w1_def using q by (rule rpush_quiet)+
  have f2: "faults w2 = []" "entropy w2 = entropy w"
    unfolding w2_def using f1 by (simp_all add: incr_quiet)
  have k: "k = str_uuid (fst (uuid4 w))"
    unfolding k_def using uuid4_fst [OF f2(2)] by simp
  have s: "s = (None, (snd (uuid4 w2))\<lparr>db := (db (snd (uuid4 w2)))(k \<mapsto> RString b)\<rparr>)"
    unfolding s_def using f2(1) enc by (simp add: set_quiet uuid4_snd)
  have f3: "faults (snd s) = []" "db (snd s) k = Some (RString b)"
    using f2(1) by (simp_all add: s uuid4_snd)
  have res: "r = Inr (PStr k)"
    and w': "w' = snd (guard ''Redis error while pushing outputs: ''
            (redis_rpush ''Cache.store:outputs'' (PStr k) (snd s)))"
    using st s
    by (simp_all add: store_steps [OF tx te'] Let_def flip: w1_def w2_def k_def s_def)
  have kn: "k \<noteq> ''Cache.store:outputs''"
    unfolding k by (rule str_uuid_not_instrumentation)
  have f4: "faults w' = []" "db w' k = Some (RString b)"
    unfolding w' using f3 kn by (simp_all add: rpush_quiet)
  have "Cache_get k None w' = (Inr (PBytes b), w')"
    using f4 by (simp add: Cache_get_def redis_get_def transport_def)
  with res show ?thesis
    by (simp add: k)
qed

theorem store_then_get_witness:
  "faults idle_world = [] \<and> str_tuple id [PInt 5] = Inr ''(5,)''
   \<and> encode_utf8 ''(5,)'' = Inr ''(5,)'' \<and> redis_encode (PInt 5) = Inr ''5''
   \<and> fst (invoke (Cache_store id) [PInt 5] [] idle_world)
       = Inr (PStr (str_uuid (fst (uuid4 idle_world))))
   \<and> Cache_get (str_uuid (fst (uuid4 idle_world))) None
        (snd (invoke (Cache_store id) [PInt 5] [] idle_world))
       = (Inr (PBytes ''5''), snd (invoke (Cache_store id) [PInt 5] [] idle_world))"
proof -
  have q: "faults idle_world = []" by (simp add: idle_world_def)
  have l: "length (digits (nat \<bar>5\<bar>)) \<le> max_str_digits"
    by (simp add: digits.simps max_str_digits_def)
  have t: "str_tuple id [PInt 5] = Inr ''(5,)''"
    and te: "encode_utf8 ''(5,)'' = Inr ''(5,)''"
    and e: "redis_encode (PInt 5) = Inr ''5''"
    using int_converts(1) [OF l, of id] int_converts(2,3) [OF l]
    by (simp_all add: repr_int_5)
  have s: "invoke (Cache_store id) [PInt 5] [] idle_world
           = (fst (invoke (Cache_store id) [PInt 5] [] idle_world),
              snd (invoke (Cache_store id) [PInt 5] [] idle_world))"
    by simp
  show ?thesis
    using store_then_get [OF q t te e s] q t te e by simp
qed

text \<open>
  Claim C1 as stated fails: \<open>huge\<close> is an \<^verbatim>\<open>int\<close>, but after \<^verbatim>\<open>cache = Cache()\<close> the call
  \<^verbatim>\<open>cache.store(huge)\<close> raises \<^verbatim>\<open>ValueError\<close> in \<^verbatim>\<open>str(args)\<close>: it returns no key and
  sends nothing to the server.
\<close>

theorem store_huge_raises:
  "invoke (Cache_store id) [PInt huge] [] (snd (Cache_init idle_world))
     = (Inl ValueError, idle_world)"
  by (simp add: store_huge init_idle)

subsection \<open>Exceptions that leave the facade\<close>







subsection \<open>Counter and history of \<^verbatim>\<open>store\<close>\<close>

lemma convertible_5: "convertible id (PInt 5)"
  by (simp add: convertible_def str_tuple_5 py_repr_int_5)

lemma convertible_hello: "convertible id (PStr ''hello'')"
proof -
  have "is_ascii ([CHR ''('', squote] @ ''hello'' @ [squote] @ '',)'')" "is_ascii ''hello''"
    by (simp_all add: is_ascii_def squote_def)
  then have "valid_utf8 ([CHR ''('', squote] @ ''hello'' @ [squote] @ '',)'')"
    "encode_utf8 ''hello'' = Inr ''hello''"
    by (simp_all only: is_ascii_valid encode_ascii)
  then show ?thesis
    by (simp only: convertible_def str_tuple_hello redis_encode.simps sum.case simp_thms)
qed

text \<open>
  Claim C3, as the code has it. After \<^verbatim>\<open>Cache()\<close> and \<open>N\<close> calls \<^verbatim>\<open>store(v1)\<close>, ...,
  \<^verbatim>\<open>store(vN)\<close> with no failure of the store (no transport fault, and \<open>N\<close> within the
  64-bit range of the server's counters) and values whose conversions succeed
  (\<^verbatim>\<open>str(args)\<close> gives a text that encodes, and encoding the value raises nothing of its
  own), every call returns a key, the counter \<^verbatim>\<open>Cache.store\<close> reads as \<open>N\<close>, the list
  \<^verbatim>\<open>Cache.store:inputs\<close> holds, in order, the texts \<^verbatim>\<open>str((v1,))\<close>, ..., \<^verbatim>\<open>str((vN,))\<close>,
  and the list \<^verbatim>\<open>Cache.store:outputs\<close> holds, in order, the keys the calls returned.
\<close>

theorem store_counts_and_history:
  assumes "faults w0 = []" and "int (length vs) < 2 ^ 63"
    and "list_all (convertible u) vs"
    and "store_each u vs (snd (Cache_init w0)) = (rs, w')"
  shows "(\<exists>r. fst (redis_get ''Cache.store'' w') = Inr r \<and> call_count r = Inr (int (length vs)))
    \<and> (\<exists>ins. fst (redis_lrange ''Cache.store:inputs'' 0 (- 1) w') = Inr ins
           \<and> length ins = length vs \<and> map (\<lambda>v. str_tuple u [v]) vs = map Inr ins)
    \<and> (\<exists>outs. fst (redis_lrange ''Cache.store:outputs'' 0 (- 1) w') = Inr outs
           \<and> length outs = length vs \<and> rs = map (\<lambda>k. Inr (PStr k)) outs)"
proof -
  define w where "w = snd (Cache_init w0)"
  have w: "faults w = []" "db w = Map.empty"
    using assms(1) by (simp_all add: w_def init_quiet)
  have c: "db w ''Cache.store'' = None \<and> (0::nat) = 0
           \<or> db w ''Cache.store'' = Some (RString (repr_int (int 0)))"
    and i: "db w ''Cache.store:inputs'' = None \<and> ([]::bytes list) = []
           \<or> db w ''Cache.store:inputs'' = Some (RList [])"
    and o: "db w ''Cache.store:outputs'' = None \<and> ([]::bytes list) = []
           \<or> db w ''Cache.store:outputs'' = Some (RList [])"
    and b: "int 0 + int (length vs) < 2 ^ 63"
    using w assms(2) by simp_all
  have st: "store_each u vs w = (rs, w')"
    using assms(4) by (simp add: w_def)
  obtain ins ks where r: "map (\<lambda>v. str_tuple u [v]) vs = map Inr ins"
      "length ks = length vs" "rs = map (\<lambda>k. Inr (PStr k)) ks"
      "faults w' = []"
      "db w' ''Cache.store'' = None \<and> 0 + length vs = 0
         \<or> db w' ''Cache.store'' = Some (RString (repr_int (int (0 + length vs))))"
      "db w' ''Cache.store:inputs'' = None \<and> [] @ ins = []
         \<or> db w' ''Cache.store:inputs'' = Some (RList ([] @ ins))"
      "db w' ''Cache.store:outputs'' = None \<and> [] @ ks = []
         \<or> db w' ''Cache.store:outputs'' = Some (RList ([] @ ks))"
    using store_each_inv [OF w(1) c i o b assms(3) st] by blast
  have len: "length ins = length vs"
    using arg_cong [OF r(1), of length] by simp
  have 1: "\<exists>r. fst (redis_get ''Cache.store'' w') = Inr r \<and> call_count r = Inr (int (length vs))"
  proof (cases "db w' ''Cache.store''")
    case None
    then have "fst (redis_get ''Cache.store'' w') = Inr None" "length vs = 0"
      using r(4,5) by (simp_all add: redis_get_def transport_def)
    then show ?thesis by (simp add: call_count_def)
  next
    case (Some a)
    then have "fst (redis_get ''Cache.store'' w') = Inr (Some (repr_int (int (length vs))))"
      using r(4,5) by (simp add: redis_get_def transport_def)
    then show ?thesis using assms(2) by (simp add: call_count_repr_int)
  qed
  have 2: "fst (redis_lrange ''Cache.store:inputs'' 0 (- 1) w') = Inr ins"
    using r(4,6) by (auto simp: redis_lrange_def transport_def lrange_all)
  have 3: "fst (redis_lrange ''Cache.store:outputs'' 0 (- 1) w') = Inr ks"
    using r(4,7) by (auto simp: redis_lrange_def transport_def lrange_all)
  from 1 2 3 r(1,2,3) len show ?thesis by blast
qed

theorem store_counts_and_history_witness:
  "faults idle_world = [] \<and> int (length [PInt 5, PStr ''hello'']) < 2 ^ 63
   \<and> list_all (convertible id) [PInt 5, PStr ''hello'']
   \<and> (\<exists>r. fst (redis_get ''Cache.store''
                 (snd (store_each id [PInt 5, PStr ''hello''] (snd (Cache_init idle_world)))))
               = Inr r
            \<and> call_count r = Inr 2)
   \<and> (\<exists>ins. fst (redis_lrange ''Cache.store:inputs'' 0 (- 1)
                 (snd (store_each id [PInt 5, PStr ''hello''] (snd (Cache_init idle_world)))))
               = Inr ins
            \<and> length ins = 2
            \<and> [str_tuple id [PInt 5], str_tuple id [PStr ''hello'']] = map Inr ins)
   \<and> (\<exists>outs. fst (redis_lrange ''Cache.store:outputs'' 0 (- 1)
                 (snd (store_each id [PInt 5, PStr ''hello''] (snd (Cache_init idle_world)))))
               = Inr outs
            \<and> length outs = 2
            \<and> fst (store_each id [PInt 5, PStr ''hello''] (snd (Cache_init idle_world)))
                = map (\<lambda>k. Inr (PStr k)) outs)"
proof -
  have q: "faults idle_world = []" by (simp add: idle_world_def)
  have n: "int (length [PInt 5, PStr ''hello'']) < 2 ^ 63" by simp
  have c: "list_all (convertible id) [PInt 5, PStr ''hello'']"
    by (simp add: convertible_5 convertible_hello)
  have s: "store_each id [PInt 5, PStr ''hello''] (snd (Cache_init idle_world))
           = (fst (store_each id [PInt 5, PStr ''hello''] (snd (Cache_init idle_world))),
              snd (store_each id [PInt 5, PStr ''hello''] (snd (Cache_init idle_world))))"
    by simp
  show ?thesis
    using store_counts_and_history [OF q n c s] q c
    by (simp del: store_each.simps add: numeral_2_eq_2)
qed

text \<open>
  Claim C3 as stated fails, with no failure of the store. After \<^verbatim>\<open>cache = Cache()\<close>, the one
  call \<^verbatim>\<open>cache.store(huge)\<close> raises \<^verbatim>\<open>ValueError\<close> before any command is sent: the counter
  reads as 0 and both lists are empty. And the one call \<^verbatim>\<open>cache.store('\ud800')\<close> raises
  \<^verbatim>\<open>UnicodeEncodeError\<close> when the value is encoded, after the entry of the inputs list
  and the increment: the counter reads as 1, the inputs list has one entry, the outputs list
  none.
\<close>

theorem store_raising_breaks_history:
  "store_each id [PInt huge] (snd (Cache_init idle_world)) = ([Inl ValueError], idle_world)
   \<and> fst (redis_get ''Cache.store'' idle_world) = Inr None
   \<and> call_count None = Inr 0
   \<and> fst (redis_lrange ''Cache.store:inputs'' 0 (- 1) idle_world) = Inr []
   \<and> fst (redis_lrange ''Cache.store:outputs'' 0 (- 1) idle_world) = Inr []
   \<and> fst (store_each escaped_repr [PStr lone_surrogate] (snd (Cache_init idle_world)))
       = [Inl UnicodeEncodeError]
   \<and> fst (redis_get ''Cache.store''
            (snd (store_each escaped_repr [PStr lone_surrogate] (snd (Cache_init idle_world)))))
       = Inr (Some ''1'')
   \<and> call_count (Some ''1'') = Inr 1
   \<and> fst (redis_lrange ''Cache.store:inputs'' 0 (- 1)
            (snd (store_each escaped_repr [PStr lone_surrogate] (snd (Cache_init idle_world)))))
       = Inr [[CHR ''('', squote, backslash] @ ''ud800'' @ [squote] @ '',)'']
   \<and> fst (redis_lrange ''Cache.store:outputs'' 0 (- 1)
            (snd (store_each escaped_repr [PStr lone_surrogate] (snd (Cache_init idle_world)))))
       = Inr []"
proof -
  have 1: "store_each id [PInt huge] (snd (Cache_init idle_world)) = ([Inl ValueError], idle_world)"
    by (simp add: init_idle store_huge)
  have 2: "fst (redis_get ''Cache.store'' idle_world) = Inr None"
    "fst (redis_lrange ''Cache.store:inputs'' 0 (- 1) idle_world) = Inr []"
    "fst (redis_lrange ''Cache.store:outputs'' 0 (- 1) idle_world) = Inr []"
    by (simp_all add: idle_world_def redis_get_def redis_lrange_def transport_def)
  have 3: "call_count None = Inr 0" "call_count (Some ''1'') = Inr 1"
    using call_count_repr_int [of 1] by (simp_all add: call_count_def repr_int_1)
  have 4: "store_each escaped_repr [PStr lone_surrogate] (snd (Cache_init idle_world))
       = ([Inl UnicodeEncodeError],
          idle_world\<lparr>db := [''Cache.store:inputs'' \<mapsto>
                         RList [[CHR ''('', squote, backslash] @ ''ud800'' @ [squote] @ '',)''],
                      ''Cache.store'' \<mapsto> RString ''1''],
                 entropy := \<lambda>j. Suc j\<rparr>)"
    by (simp add: init_idle store_surrogate)
  have 5: "fst (redis_get ''Cache.store''
            (idle_world\<lparr>db := [''Cache.store:inputs'' \<mapsto>
                         RList [[CHR ''('', squote, backslash] @ ''ud800'' @ [squote] @ '',)''],
                      ''Cache.store'' \<mapsto> RString ''1''],
                 entropy := \<lambda>j. Suc j\<rparr>)) = Inr (Some ''1'')"
    "fst (redis_lrange ''Cache.store:inputs'' 0 (- 1)
            (idle_world\<lparr>db := [''Cache.store:inputs'' \<mapsto>
                         RList [[CHR ''('', squote, backslash] @ ''ud800'' @ [squote] @ '',)''],
                      ''Cache.store'' \<mapsto> RString ''1''],
                 entropy := \<lambda>j. Suc j\<rparr>))
       = Inr [[CHR ''('', squote, backslash] @ ''ud800'' @ [squote] @ '',)'']"
    "fst (redis_lrange ''Cache.store:outputs'' 0 (- 1)
            (idle_world\<lparr>db := [''Cache.store:inputs'' \<mapsto>
                         RList [[CHR ''('', squote, backslash] @ ''ud800'' @ [squote] @ '',)''],
                      ''Cache.store'' \<mapsto> RString ''1''],
                 entropy := \<lambda>j. Suc j\<rparr>)) = Inr []"
    by (simp_all add: idle_world_def redis_get_def redis_lrange_def transport_def lrange_all)
  show ?thesis
    unfolding 4 using 1 2 3 5 by (simp del: store_each.simps)
qed

subsection \<open>The output of \<^verbatim>\<open>replay\<close>\<close>

lemma one_call_reads:
  "truthy (bound_store RedisClient)" "self_redis (bound_store RedisClient) = Some RedisClient"
  "ref_qualname (bound_store RedisClient) = ''Cache.store''"
  "faults one_call_world = []" "stdout one_call_world = []"
  "fst (redis_get ''Cache.store'' one_call_world) = Inr (Some ''1'')"
  "call_count (Some ''1'') = Inr 1"
  "fst (redis_lrange ''Cache.store:inputs'' 0 (- 1) one_call_world) = Inr [''(5,)'']"
  "fst (redis_lrange ''Cache.store:outputs'' 0 (- 1) one_call_world)
     = Inr [''00000000-0000-4000-8000-000000000000'']"
  "list_all valid_utf8 [''(5,)'']" "list_all valid_utf8 [''00000000-0000-4000-8000-000000000000'']"
proof -
  show "truthy (bound_store RedisClient)" "self_redis (bound_store RedisClient) = Some RedisClient"
    "ref_qualname (bound_store RedisClient) = ''Cache.store''"
    by (simp_all add: bound_store_def)
  show "faults one_call_world = []" "stdout one_call_world = []"
    by (simp_all add: one_call_world_eq idle_world_def)
  show "fst (redis_get ''Cache.store'' one_call_world) = Inr (Some ''1'')"
    by (simp add: one_call_world_eq idle_world_def redis_get_def transport_def)
  show "call_count (Some ''1'') = Inr 1"
    using call_count_repr_int [of 1] by (simp add: repr_int_1)
  show "fst (redis_lrange ''Cache.store:inputs'' 0 (- 1) one_call_world) = Inr [''(5,)'']"
    by (simp add: one_call_world_eq idle_world_def redis_lrange_def transport_def lrange_all)
  show "fst (redis_lrange ''Cache.store:outputs'' 0 (- 1) one_call_world)
     = Inr [''00000000-0000-4000-8000-000000000000'']"
    by (simp add: one_call_world_eq idle_world_def redis_lrange_def transport_def lrange_all)
  show "list_all valid_utf8 [''(5,)'']"
    "list_all valid_utf8 [''00000000-0000-4000-8000-000000000000'']"
    by simp_all
qed

lemma indent_18: "replicate 18 (CHR '' '') = ''                  ''"
  by (simp add: eval_nat_numeral)

lemma replay_one_call:
  "replay (bound_store RedisClient) one_call_world =
     (None, one_call_world\<lparr>stdout :=
        ''Cache.store was called 1 times:'' @ [newline]
        @ ''Cache.store'' @ [CHR ''('', CHR ''*''] @ ''(5,))->'' @ [newline]
        @ ''                  00000000-0000-4000-8000-000000000000'' @ [newline]\<rparr>)"
  using replay_bound [OF one_call_reads(1,2,4), of "Some ''1''" 1 "[''(5,)'']"
      "[''00000000-0000-4000-8000-000000000000'']"] one_call_reads
  by (simp add: repr_int_1 call_lines_def call_text_def decodable_def indent_18)


lemma repr_int_2: "repr_int 2 = ''2''"
  by (simp add: repr_int_def digits.simps digit_char_def)

lemma garbled_reads:
  "faults garbled_world = []" "stdout garbled_world = []"
  "fst (redis_get ''Cache.store'' garbled_world) = Inr (Some ''2'')"
  "call_count (Some ''2'') = Inr 2"
  "fst (redis_lrange ''Cache.store:inputs'' 0 (- 1) garbled_world) = Inr [''(1,)'', ''(2,)'']"
  "fst (redis_lrange ''Cache.store:outputs'' 0 (- 1) garbled_world) = Inr [''a'', [CHR 0xFF]]"
proof -
  show "faults garbled_world = []" "stdout garbled_world = []"
    by (simp_all add: garbled_world_def idle_world_def)
  show "fst (redis_get ''Cache.store'' garbled_world) = Inr (Some ''2'')"
    by (simp add: garbled_world_def idle_world_def redis_get_def transport_def)
  show "call_count (Some ''2'') = Inr 2"
    using call_count_repr_int [of 2] by (simp add: repr_int_2)
  show "fst (redis_lrange ''Cache.store:inputs'' 0 (- 1) garbled_world) = Inr [''(1,)'', ''(2,)'']"
    by (simp add: garbled_world_def idle_world_def redis_lrange_def transport_def lrange_all)
  show "fst (redis_lrange ''Cache.store:outputs'' 0 (- 1) garbled_world) = Inr [''a'', [CHR 0xFF]]"
    by (simp add: garbled_world_def idle_world_def redis_lrange_def transport_def lrange_all)
qed

lemma call_lines_decoded:
  "call_lines name (takeWhile decodable ps) =
     concat (map (\<lambda>p. name @ [CHR ''('', CHR ''*'']
                        @ (case decode_utf8 (fst p) of Inl x \<Rightarrow> [] | Inr si \<Rightarrow> si)
                        @ '')->'' @ [newline] @ replicate 18 (CHR '' '')
                        @ (case decode_utf8 (snd p) of Inl x \<Rightarrow> [] | Inr so \<Rightarrow> so)
                        @ [newline])
                 (takeWhile (\<lambda>p. valid_utf8 (fst p) \<and> valid_utf8 (snd p)) ps))"
proof -
  have d: "decodable = (\<lambda>p. valid_utf8 (fst p) \<and> valid_utf8 (snd p))"
    by (simp add: fun_eq_iff decodable_def)
  have m: "map (\<lambda>p. call_text name (fst p) (snd p) @ [newline]) (takeWhile decodable ps)
        = map (\<lambda>p. name @ [CHR ''('', CHR ''*'']
                        @ (case decode_utf8 (fst p) of Inl x \<Rightarrow> [] | Inr si \<Rightarrow> si)
                        @ '')->'' @ [newline] @ replicate 18 (CHR '' '')
                        @ (case decode_utf8 (snd p) of Inl x \<Rightarrow> [] | Inr so \<Rightarrow> so)
                        @ [newline]) (takeWhile decodable ps)"
  proof (rule map_cong [OF refl])
    fix p assume "p \<in> set (takeWhile decodable ps)"
    then have "decodable p" by (rule set_takeWhileD [THEN conjunct2])
    then show "call_text name (fst p) (snd p) @ [newline]
        = name @ [CHR ''('', CHR ''*'']
                        @ (case decode_utf8 (fst p) of Inl x \<Rightarrow> [] | Inr si \<Rightarrow> si)
                        @ '')->'' @ [newline] @ replicate 18 (CHR '' '')
                        @ (case decode_utf8 (snd p) of Inl x \<Rightarrow> [] | Inr so \<Rightarrow> so)
                        @ [newline]"
      by (simp add: decodable_def decode_utf8_def call_text_def)
  qed
  show ?thesis
    by (simp only: call_lines_def m [unfolded d] d)
qed

text \<open>
  Claim C4 fails on the code. After \<^verbatim>\<open>cache = Cache()\<close> and \<^verbatim>\<open>cache.store(5)\<close>, each list
  has one entry, and \<^verbatim>\<open>replay(cache.store)\<close> prints three lines, not the two of the claim
  (one summary line and one line for the one pair): the text printed for the call is
  \<^verbatim>\<open>Cache.store\<close>, \<^verbatim>\<open>(\<close>, \<^verbatim>\<open>*\<close>, \<^verbatim>\<open>(5,))->\<close>, a line break, 18 spaces and the
  key.
\<close>

theorem replay_call_spans_two_lines:
  "fst (redis_lrange ''Cache.store:inputs'' 0 (- 1) one_call_world) = Inr [''(5,)'']
   \<and> fst (redis_lrange ''Cache.store:outputs'' 0 (- 1) one_call_world)
       = Inr [''00000000-0000-4000-8000-000000000000'']
   \<and> stdout one_call_world = []
   \<and> stdout (snd (replay (bound_store RedisClient) one_call_world))
       = ''Cache.store was called 1 times:'' @ [newline]
         @ ''Cache.store'' @ [CHR ''('', CHR ''*''] @ ''(5,))->'' @ [newline]
         @ ''                  00000000-0000-4000-8000-000000000000'' @ [newline]
   \<and> line_count (stdout (snd (replay (bound_store RedisClient) one_call_world))) = 3
   \<and> line_count (stdout (snd (replay (bound_store RedisClient) one_call_world)))
       \<noteq> 1 + min (length [''(5,)'']) (length [''00000000-0000-4000-8000-000000000000''])"
  by (simp add: one_call_reads replay_one_call line_count_def newline_def)

theorem replay_call_spans_two_lines_witness:
  "truthy (bound_store RedisClient) \<and> self_redis (bound_store RedisClient) = Some RedisClient
   \<and> faults one_call_world = []
   \<and> length (zip [''(5,)''] [''00000000-0000-4000-8000-000000000000'']) = 1
   \<and> line_count (stdout (snd (replay (bound_store RedisClient) one_call_world))) = 3"
proof -
  have "line_count (stdout (snd (replay (bound_store RedisClient) one_call_world))) = 3"
    using replay_call_spans_two_lines by blast
  moreover have "length (zip [''(5,)''] [''00000000-0000-4000-8000-000000000000'']) = 1"
    by simp
  ultimately show ?thesis
    using one_call_reads(1,2,4) by blast
qed

subsection \<open>The counting wrapper, absent keys, construction, invalid references\<close>






text \<open>
  Claim C7. The constructor always sends the flush (one command, whatever the state) and
  always completes, with \<^verbatim>\<open>_redis\<close> set to the client. When the flush reaches the server
  the database is empty afterwards, whatever it held: every counter is absent and reads
  as 0, every history list reads as empty. When the flush fails, the failure is reported
  on standard output and the constructor completes all the same.
\<close>

theorem init_flushes:
  "fst (Cache_init w) = (None, RedisClient)
   \<and> faults (snd (Cache_init w)) = tl (faults w)
   \<and> (faults w = [] \<or> hd (faults w) = None \<longrightarrow>
        db (snd (Cache_init w)) = Map.empty \<and> stdout (snd (Cache_init w)) = stdout w)
   \<and> (faults w = [] \<longrightarrow>
        fst (redis_get name (snd (Cache_init w))) = Inr None \<and> call_count None = Inr 0
        \<and> fst (redis_lrange name 0 (- 1) (snd (Cache_init w))) = Inr [])
   \<and> (faults w = Some m # fs \<longrightarrow>
        db (snd (Cache_init w)) = db w
        \<and> stdout (snd (Cache_init w)) = stdout w @ ''Redis connection error: '' @ m @ [newline])"
  by (auto simp: Cache_init_def redis_flushdb_def transport_def report_def py_print_def
      redis_get_def redis_lrange_def call_count_def split: list.splits option.splits)

theorem init_flushes_witness:
  "db one_call_world ''Cache.store'' = Some (RString ''1'') \<and> faults one_call_world = []
   \<and> fst (Cache_init one_call_world) = (None, RedisClient)
   \<and> db (snd (Cache_init one_call_world)) = Map.empty
   \<and> fst (redis_get ''Cache.store'' (snd (Cache_init one_call_world))) = Inr None
   \<and> fst (redis_lrange ''Cache.store:inputs'' 0 (- 1) (snd (Cache_init one_call_world))) = Inr []
   \<and> faults (one_call_world\<lparr>faults := [Some ''Connection refused'']\<rparr>)
       = Some ''Connection refused'' # []
   \<and> fst (Cache_init (one_call_world\<lparr>faults := [Some ''Connection refused'']\<rparr>))
       = (None, RedisClient)
   \<and> stdout (snd (Cache_init (one_call_world\<lparr>faults := [Some ''Connection refused'']\<rparr>)))
       = stdout (one_call_world\<lparr>faults := [Some ''Connection refused'']\<rparr>)
         @ ''Redis connection error: '' @ ''Connection refused'' @ [newline]"
proof -
  have a: "db one_call_world ''Cache.store'' = Some (RString ''1'')" "faults one_call_world = []"
    by (simp_all add: one_call_world_eq idle_world_def)
  have b: "faults (one_call_world\<lparr>faults := [Some ''Connection refused'']\<rparr>)
       = Some ''Connection refused'' # []"
    by simp
  show ?thesis
    using init_flushes [of one_call_world "''Cache.store''" "''Connection refused''" "[]"]
      init_flushes [of one_call_world "''Cache.store:inputs''" "''Connection refused''" "[]"]
      init_flushes [of "one_call_world\<lparr>faults := [Some ''Connection refused'']\<rparr>"
        "''Cache.store''" "''Connection refused''" "[]"]
      a b
    by simp
qed



subsection \<open>What the history wrapper records\<close>








subsection \<open>The order and content of the output of \<^verbatim>\<open>replay\<close>\<close>

text \<open>
  Claim C10. For a bound method of an object whose \<^verbatim>\<open>_redis\<close> is a client, when no
  command fails and the counter is readable as \<open>n\<close>, what \<^verbatim>\<open>replay\<close> prints is the
  summary line \<^verbatim>\<open>{name} was called {n} times:\<close> first and then, for the pairs of the two
  lists in order, the text of the call: the name, \<^verbatim>\<open>(\<close>, \<^verbatim>\<open>*\<close>, the input entry decoded as
  UTF-8, \<^verbatim>\<open>)->\<close>, a line break, 18 spaces, and the output entry decoded as UTF-8. The pairs
  printed are those before the first pair with an entry that is not valid UTF-8; when
  there is such a pair \<^verbatim>\<open>replay\<close> raises \<^verbatim>\<open>UnicodeDecodeError\<close> there, otherwise it
  returns normally.
\<close>

theorem replay_summary_first:
  assumes "truthy fn" and "self_redis fn = Some RedisClient" and "faults w = []"
    and "fst (redis_get (ref_qualname fn) w) = Inr r" and "call_count r = Inr n"
    and "fst (redis_lrange (ref_qualname fn @ '':inputs'') 0 (- 1) w) = Inr ins"
    and "fst (redis_lrange (ref_qualname fn @ '':outputs'') 0 (- 1) w) = Inr outs"
  shows "replay fn w =
     (if list_all (\<lambda>p. valid_utf8 (fst p) \<and> valid_utf8 (snd p)) (zip ins outs)
      then None else Some UnicodeDecodeError,
      w\<lparr>stdout := stdout w
           @ (ref_qualname fn @ '' was called '' @ repr_int n @ '' times:'' @ [newline])
           @ concat (map (\<lambda>p. ref_qualname fn @ [CHR ''('', CHR ''*'']
                        @ (case decode_utf8 (fst p) of Inl x \<Rightarrow> [] | Inr si \<Rightarrow> si)
                        @ '')->'' @ [newline] @ replicate 18 (CHR '' '')
                        @ (case decode_utf8 (snd p) of Inl x \<Rightarrow> [] | Inr so \<Rightarrow> so)
                        @ [newline])
                 (takeWhile (\<lambda>p. valid_utf8 (fst p) \<and> valid_utf8 (snd p)) (zip ins outs)))\<rparr>)"
proof -
  have d: "decodable = (\<lambda>p. valid_utf8 (fst p) \<and> valid_utf8 (snd p))"
    by (simp add: fun_eq_iff decodable_def)
  show ?thesis
    unfolding replay_bound [OF assms] call_lines_decoded by (simp add: d)
qed

theorem replay_summary_first_witness:
  "truthy (bound_store RedisClient) \<and> self_redis (bound_store RedisClient) = Some RedisClient
   \<and> faults one_call_world = [] \<and> faults garbled_world = []
   \<and> fst (redis_get ''Cache.store'' one_call_world) = Inr (Some ''1'')
   \<and> fst (redis_get ''Cache.store'' garbled_world) = Inr (Some ''2'')
   \<and> replay (bound_store RedisClient) one_call_world =
       (None,
        one_call_world\<lparr>stdout :=
          ''Cache.store was called 1 times:'' @ [newline]
          @ ''Cache.store'' @ [CHR ''('', CHR ''*''] @ ''(5,))->'' @ [newline]
          @ ''                  00000000-0000-4000-8000-000000000000'' @ [newline]\<rparr>)
   \<and> replay (bound_store RedisClient) garbled_world =
       (Some UnicodeDecodeError,
        garbled_world\<lparr>stdout :=
          ''Cache.store was called 2 times:'' @ [newline]
          @ ''Cache.store'' @ [CHR ''('', CHR ''*''] @ ''(1,))->'' @ [newline]
          @ ''                  a'' @ [newline]\<rparr>)"
proof -
  have 1: "fst (redis_get (ref_qualname (bound_store RedisClient)) one_call_world)
             = Inr (Some ''1'')"
    and 2: "fst (redis_lrange (ref_qualname (bound_store RedisClient) @ '':inputs'') 0 (- 1)
            one_call_world) = Inr [''(5,)'']"
    and 3: "fst (redis_lrange (ref_qualname (bound_store RedisClient) @ '':outputs'') 0 (- 1)
            one_call_world) = Inr [''00000000-0000-4000-8000-000000000000'']"
    by (simp_all add: one_call_reads)
  have 4: "fst (redis_get (ref_qualname (bound_store RedisClient)) garbled_world)
             = Inr (Some ''2'')"
    and 5: "fst (redis_lrange (ref_qualname (bound_store RedisClient) @ '':inputs'') 0 (- 1)
            garbled_world) = Inr [''(1,)'', ''(2,)'']"
    and 6: "fst (redis_lrange (ref_qualname (bound_store RedisClient) @ '':outputs'') 0 (- 1)
            garbled_world) = Inr [''a'', [CHR 0xFF]]"
    by (simp_all add: one_call_reads(3) garbled_reads)
  have a: "replay (bound_store RedisClient) one_call_world =
       (None,
        one_call_world\<lparr>stdout :=
          ''Cache.store was called 1 times:'' @ [newline]
          @ ''Cache.store'' @ [CHR ''('', CHR ''*''] @ ''(5,))->'' @ [newline]
          @ ''                  00000000-0000-4000-8000-000000000000'' @ [newline]\<rparr>)"
    unfolding replay_summary_first [OF one_call_reads(1,2,4) 1 one_call_reads(7) 2 3]
    by (simp add: one_call_reads(3,5) repr_int_1 decode_utf8_def indent_18)
  have b: "replay (bound_store RedisClient) garbled_world =
       (Some UnicodeDecodeError,
        garbled_world\<lparr>stdout :=
          ''Cache.store was called 2 times:'' @ [newline]
          @ ''Cache.store'' @ [CHR ''('', CHR ''*''] @ ''(1,))->'' @ [newline]
          @ ''                  a'' @ [newline]\<rparr>)"
    unfolding replay_summary_first [OF one_call_reads(1,2) garbled_reads(1) 4 garbled_reads(4) 5 6]
    by (simp add: one_call_reads(3) garbled_reads(2) repr_int_2 decode_utf8_def indent_18)
  show ?thesis
    using a b one_call_reads(1,2,4,6) garbled_reads(1,3) by simp
qed

end
